theory Spec2Isabelle
  imports Complex_Main "HOL-Library.Sublist" "HOL-Library.AList" "HOL-Library.Multiset"
begin

section \<open>Data model\<close>

text \<open>
  The exceptions the modelled Python can raise. \<open>IndexError\<close> is an out-of-range
  subscript, \<open>ValueError\<close> the explicit shape check of \<open>QUBO_to_Ising\<close> and the shape
  mismatch of \<open>np.dot\<close>, \<open>NameError\<close> a read of the unbound global \<open>K\<close>,
  \<open>AttributeError\<close> the conversion \<open>K.numpy\<close> of a value that is not a tensor.
\<close>

datatype error = ValueError | IndexError | NameError | AttributeError

text \<open>
  A two-dimensional numpy array: its shape \<open>(nrows, ncols)\<close> and its rows. The shape
  is stored, as numpy stores it, so that an array with no rows still has a column count.
  An entry is the number the array holds there. What numpy computes from the entries
  depends on the array's dtype (64-bit integers wrap around, floats round): the
  arithmetic of \<open>QUBO_to_Ising\<close> is therefore not fixed here but a parameter, the record
  \<open>numpy_arith\<close> below.
\<close>

record ndarray =
  nrows :: nat
  ncols :: nat
  rows_of :: "real list list"

definition wf_ndarray :: "ndarray \<Rightarrow> bool" where
  "wf_ndarray Q \<longleftrightarrow>
     length (rows_of Q) = nrows Q \<and> list_all (\<lambda>r. length r = ncols Q) (rows_of Q)"

definition entry :: "ndarray \<Rightarrow> nat \<Rightarrow> nat \<Rightarrow> real" where
  "entry Q i j = rows_of Q ! i ! j"

section \<open>The Ising converter (QAOA\_funcs.py, \<open>QUBO_to_Ising\<close>)\<close>

text \<open>\<open>np.triu(Q, 0)\<close>: the entries below the diagonal are replaced by zero.\<close>

definition triu :: "ndarray \<Rightarrow> real list list" where
  "triu Q =
     map (\<lambda>i. map (\<lambda>j. if j < i then 0 else entry Q i j) [0..<ncols Q]) [0..<nrows Q]"

text \<open>
  The arithmetic numpy performs in \<open>QUBO_to_Ising\<close>, in the dtype of \<open>Q\<close>: \<open>sum_2d\<close> is
  \<open>.sum()\<close> of a two-dimensional array, \<open>sum_1d\<close> the sum of one row in
  \<open>np.sum(Q, axis=1)\<close>, \<open>negative\<close> the unary minus and \<open>halve\<close> the division \<open>/ 2\<close>.
  \<open>exact_arith\<close> is the arithmetic without rounding and without wrap-around.
\<close>

record numpy_arith =
  sum_2d :: "real list list \<Rightarrow> real"
  sum_1d :: "real list \<Rightarrow> real"
  negative :: "real \<Rightarrow> real"
  halve :: "real \<Rightarrow> real"

definition exact_arith :: numpy_arith where
  "exact_arith =
     \<lparr>sum_2d = (\<lambda>rs. sum_list (map sum_list rs)),
      sum_1d = sum_list,
      negative = (\<lambda>v. - v),
      halve = (\<lambda>v. v / 2)\<rparr>"

text \<open>\<open>term = np.zeros(n); term[i] = 1\<close> and the same with \<open>term[j] = 1\<close> added.\<close>

definition single_term :: "nat \<Rightarrow> nat \<Rightarrow> real list" where
  "single_term n i = (replicate n 0)[i := 1]"

definition pair_term :: "nat \<Rightarrow> nat \<Rightarrow> nat \<Rightarrow> real list" where
  "pair_term n i j = (replicate n 0)[i := 1, j := 1]"

text \<open>
  The second loop nest: the state is the pair (\<open>pauli_terms\<close>, \<open>weights\<close>); each
  pass of the inner loop appends one term and one weight.
\<close>

definition pair_step ::
  "numpy_arith \<Rightarrow> ndarray \<Rightarrow> nat \<Rightarrow> nat \<Rightarrow> nat \<Rightarrow>
     real list list \<times> real list \<Rightarrow> real list list \<times> real list"
where
  "pair_step ar Q n i j st = (fst st @ [pair_term n i j], snd st @ [halve ar (entry Q i j)])"

definition pair_loop ::
  "numpy_arith \<Rightarrow> ndarray \<Rightarrow> nat \<Rightarrow> real list list \<times> real list \<Rightarrow> real list list \<times> real list"
where
  "pair_loop ar Q n st = fold (\<lambda>i. fold (pair_step ar Q n i) [i + 1..<n]) [0..<n - 1] st"

definition QUBO_to_Ising ::
  "numpy_arith \<Rightarrow> ndarray \<Rightarrow> error + (real list list \<times> real list \<times> real)"
where
  "QUBO_to_Ising ar Q =
     (let n = nrows Q in
      if n = 0 then Inl IndexError
      else if ncols Q \<noteq> n then Inl ValueError
      else
        let offset = halve ar (sum_2d ar (triu Q));
            weights = map (\<lambda>r. halve ar (negative ar (sum_1d ar r))) (rows_of Q);
            pauli_terms = fold (\<lambda>i pt. pt @ [single_term n i]) [0..<n] [];
            (pauli_terms, weights) = pair_loop ar Q n (pauli_terms, weights)
        in Inr (pauli_terms, weights, offset))"

text \<open>
  The first branch is \<open>Q[0]\<close> in the shape check \<open>Q[0].shape[0] != n\<close>: on an array
  with no rows the subscript raises before the comparison is made.
\<close>

section \<open>Specification-side notions for the converter\<close>

text \<open>The pairs \<open>(i, j)\<close> with \<open>i < j < n\<close>, by increasing \<open>i\<close>, then increasing \<open>j\<close>.\<close>

definition upper_pairs :: "nat \<Rightarrow> (nat \<times> nat) list" where
  "upper_pairs n = concat (map (\<lambda>i. map (\<lambda>j. (i, j)) [i + 1..<n]) [0..<n])"

definition is_square :: "ndarray \<Rightarrow> bool" where
  "is_square Q \<longleftrightarrow> nrows Q = ncols Q"

definition is_symmetric :: "ndarray \<Rightarrow> bool" where
  "is_symmetric Q \<longleftrightarrow>
     is_square Q \<and> (\<forall>i < nrows Q. \<forall>j < nrows Q. entry Q i j = entry Q j i)"

definition is_binary :: "real list \<Rightarrow> bool" where
  "is_binary x \<longleftrightarrow> list_all (\<lambda>v. v = 0 \<or> v = 1) x"

text \<open>The quadratic form \<open>x\<^sup>T Q x\<close>.\<close>

definition quad_form :: "ndarray \<Rightarrow> real list \<Rightarrow> real" where
  "quad_form Q x =
     (\<Sum>i\<leftarrow>[0..<nrows Q]. \<Sum>j\<leftarrow>[0..<ncols Q]. x ! i * entry Q i j * x ! j)"

text \<open>
  The classical value of a Pauli term on the basis state \<open>x\<close>: the product of
  \<open>z\<^sub>l = 1 - 2 x\<^sub>l\<close> over the positions \<open>l\<close> the term marks with a 1.
\<close>

definition z_value :: "real list \<Rightarrow> real list \<Rightarrow> real" where
  "z_value x t = (\<Prod>l\<leftarrow>[0..<length t]. if t ! l = 1 then 1 - 2 * x ! l else 1)"

definition ising_energy :: "real list list \<times> real list \<times> real \<Rightarrow> real list \<Rightarrow> real" where
  "ising_energy out x =
     (case out of (pauli_terms, weights, offset) \<Rightarrow>
        offset + (\<Sum>k\<leftarrow>[0..<length pauli_terms]. weights ! k * z_value x (pauli_terms ! k)))"

text \<open>The 0/1 vector of length \<open>n\<close> whose 1-entries are the positions in \<open>S\<close>.\<close>

definition indicator_vec :: "nat \<Rightarrow> nat set \<Rightarrow> real list" where
  "indicator_vec n S = map (\<lambda>l. if l \<in> S then 1 else 0) [0..<n]"

text \<open>Row-major order on index pairs: increasing \<open>i\<close>, then increasing \<open>j\<close>.\<close>

definition row_major :: "nat \<times> nat \<Rightarrow> nat \<times> nat \<Rightarrow> bool" where
  "row_major p q \<longleftrightarrow> fst p < fst q \<or> (fst p = fst q \<and> snd p < snd q)"

text \<open>
  Concrete arrays: the example \<open>[[1, 2], [2, 3]]\<close>, \<open>np.zeros((0, 0))\<close> and
  \<open>np.zeros((0, 3))\<close>.
\<close>

definition Q22 :: ndarray where
  "Q22 = \<lparr>nrows = 2, ncols = 2, rows_of = [[1, 2], [2, 3]]\<rparr>"

definition Q00 :: ndarray where
  "Q00 = \<lparr>nrows = 0, ncols = 0, rows_of = []\<rparr>"

definition Q03 :: ndarray where
  "Q03 = \<lparr>nrows = 0, ncols = 3, rows_of = []\<rparr>"

section \<open>Tensors, circuits and graphs of the external engine\<close>

text \<open>
  A tensor of the numerical backend: its shape and its entries in row-major order.
  \<open>sizen\<close> is \<open>backend.sizen\<close>, the number of entries. \<open>tensor_getitem t i\<close> is the
  subscript \<open>t[i]\<close> with \<open>i \<ge> 0\<close>: the \<open>i\<close>-th slice along the first axis; a tensor
  without axes cannot be subscripted, and an index past the first axis is out of range
  (numpy's and TensorFlow's eager behaviour).
\<close>

record tensor =
  tshape :: "int list"
  tdata :: "real list"

definition sizen :: "tensor \<Rightarrow> nat" where
  "sizen t = nat (prod_list (tshape t))"

definition tensor_getitem :: "tensor \<Rightarrow> nat \<Rightarrow> error + tensor" where
  "tensor_getitem t i =
     (case tshape t of
        [] \<Rightarrow> Inl IndexError
      | d # ds \<Rightarrow>
          if int i < d
          then Inr \<lparr>tshape = ds,
                    tdata = take (nat (prod_list ds)) (drop (i * nat (prod_list ds)) (tdata t))\<rparr>
          else Inl IndexError)"

text \<open>
  A circuit is the qubit count and the gates applied so far. The two gates
  \<open>QAOA_block\<close> applies: \<open>c.exp1(e1, e2, unitary=G._zz_matrix, theta=..., **kws)\<close> and
  \<open>c.rx(n, theta=...)\<close>.
\<close>

type_synonym kws = "(string \<times> string) list"

datatype gate =
    Exp1_zz nat nat tensor kws
  | Rx nat tensor

record circuit =
  nqubits :: nat
  gates :: "gate list"

record graph =
  nodes :: "nat list"
  edges :: "(nat \<times> nat) list"

section \<open>The QAOA block (blocks.py, \<open>QAOA_block\<close>)\<close>

text \<open>
  The circuit is mutated in place, so a subscript that raises in the middle of a loop
  leaves the gates applied before it: the result is the circuit and the exception, if any.
  The loops with a counter \<open>i\<close> carry the counter in the state.
\<close>

definition zz_shared :: "tensor \<Rightarrow> kws \<Rightarrow> (nat \<times> nat) list \<Rightarrow> circuit \<Rightarrow> circuit" where
  "zz_shared paramzz kw es c =
     fold (\<lambda>(e1, e2) c. c\<lparr>gates := gates c @ [Exp1_zz e1 e2 paramzz kw]\<rparr>) es c"

fun zz_indexed ::
  "tensor \<Rightarrow> kws \<Rightarrow> (nat \<times> nat) list \<Rightarrow> nat \<Rightarrow> circuit \<Rightarrow> circuit \<times> error option"
where
  "zz_indexed paramzz kw [] i c = (c, None)"
| "zz_indexed paramzz kw ((e1, e2) # es) i c =
     (case tensor_getitem paramzz i of
        Inl e \<Rightarrow> (c, Some e)
      | Inr theta \<Rightarrow>
          zz_indexed paramzz kw es (i + 1) (c\<lparr>gates := gates c @ [Exp1_zz e1 e2 theta kw]\<rparr>))"

definition rx_shared :: "tensor \<Rightarrow> nat list \<Rightarrow> circuit \<Rightarrow> circuit" where
  "rx_shared paramx ns c = fold (\<lambda>n c. c\<lparr>gates := gates c @ [Rx n paramx]\<rparr>) ns c"

fun rx_indexed :: "tensor \<Rightarrow> nat list \<Rightarrow> nat \<Rightarrow> circuit \<Rightarrow> circuit \<times> error option" where
  "rx_indexed paramx [] i c = (c, None)"
| "rx_indexed paramx (n # ns) i c =
     (case tensor_getitem paramx i of
        Inl e \<Rightarrow> (c, Some e)
      | Inr theta \<Rightarrow> rx_indexed paramx ns (i + 1) (c\<lparr>gates := gates c @ [Rx n theta]\<rparr>))"

definition QAOA_block ::
  "circuit \<Rightarrow> graph \<Rightarrow> tensor \<Rightarrow> tensor \<Rightarrow> kws \<Rightarrow> circuit \<times> error option"
where
  "QAOA_block c g paramzz paramx kw =
     (case (if sizen paramzz = 1 then (zz_shared paramzz kw (edges g) c, None)
            else zz_indexed paramzz kw (edges g) 0 c) of
        (c, Some e) \<Rightarrow> (c, Some e)
      | (c, None) \<Rightarrow>
          if sizen paramx = 1 then (rx_shared paramx (nodes g) c, None)
          else rx_indexed paramx (nodes g) 0 c)"

section \<open>The loss evaluator (QAOA\_funcs.py, \<open>Ising_loss\<close>)\<close>

text \<open>
  \<open>c.expectation_ps(z=[...])\<close> belongs to the external engine: it is the parameter
  \<open>expectation_ps\<close>, a complex number for a circuit and a list of qubit indices.
\<close>

definition index_of_ones :: "real list \<Rightarrow> nat list" where
  "index_of_ones t = fold (\<lambda>l acc. if t ! l = 1 then acc @ [l] else acc) [0..<length t] []"

text \<open>
  \<open>weights[k]\<close> is read first, then \<open>index_of_ones[0]\<close> (and \<open>index_of_ones[1]\<close>):
  each subscript raises \<open>IndexError\<close> out of range.
\<close>

definition delta_loss ::
  "(circuit \<Rightarrow> nat list \<Rightarrow> complex) \<Rightarrow> circuit \<Rightarrow> real list \<Rightarrow> nat \<Rightarrow> nat list \<Rightarrow> error + complex"
where
  "delta_loss expectation_ps c weights k ones =
     (if length ones = 1
      then (if k < length weights
            then Inr (complex_of_real (weights ! k) * expectation_ps c [ones ! 0])
            else Inl IndexError)
      else (if k < length weights
            then (if 0 < length ones
                  then (if 1 < length ones
                        then Inr (complex_of_real (weights ! k) * expectation_ps c [ones ! 0, ones ! 1])
                        else Inl IndexError)
                  else Inl IndexError)
            else Inl IndexError))"

definition loss_step ::
  "(circuit \<Rightarrow> nat list \<Rightarrow> complex) \<Rightarrow> circuit \<Rightarrow> real list list \<Rightarrow> real list \<Rightarrow>
     nat \<Rightarrow> error + complex \<Rightarrow> error + complex"
where
  "loss_step expectation_ps c pauli_terms weights k acc =
     (case acc of
        Inl e \<Rightarrow> Inl e
      | Inr loss \<Rightarrow>
          (case delta_loss expectation_ps c weights k (index_of_ones (pauli_terms ! k)) of
             Inl e \<Rightarrow> Inl e
           | Inr d \<Rightarrow> Inr (loss + d)))"

definition Ising_loss ::
  "(circuit \<Rightarrow> nat list \<Rightarrow> complex) \<Rightarrow> circuit \<Rightarrow> real list list \<Rightarrow> real list \<Rightarrow> error + real"
where
  "Ising_loss expectation_ps c pauli_terms weights =
     (case fold (loss_step expectation_ps c pauli_terms weights) [0..<length pauli_terms] (Inr 0) of
        Inl e \<Rightarrow> Inl e
      | Inr loss \<Rightarrow> Inr (Re loss))"

text \<open>The positions a term marks with a 1, in increasing order.\<close>

definition marked_positions :: "real list \<Rightarrow> nat list" where
  "marked_positions t = filter (\<lambda>l. t ! l = 1) [0..<length t]"

text \<open>
  The angle-broadcasting rule of the specification: a tensor with one entry is the angle
  of every edge (node); otherwise edge (node) \<open>k\<close> gets entry \<open>k\<close>. \<open>zz_gates\<close> and
  \<open>rx_gates\<close> are the gates this rule prescribes, one per edge and one per node, in
  iteration order.
\<close>

definition angle_for :: "tensor \<Rightarrow> nat \<Rightarrow> error + tensor" where
  "angle_for t k = (if sizen t = 1 then Inr t else tensor_getitem t k)"

definition zz_gates :: "tensor \<Rightarrow> kws \<Rightarrow> (nat \<times> nat) list \<Rightarrow> gate list" where
  "zz_gates paramzz kw es =
     map (\<lambda>k. Exp1_zz (fst (es ! k)) (snd (es ! k)) (projr (angle_for paramzz k)) kw)
       [0..<length es]"

definition rx_gates :: "tensor \<Rightarrow> nat list \<Rightarrow> gate list" where
  "rx_gates paramx ns = map (\<lambda>k. Rx (ns ! k) (projr (angle_for paramx k))) [0..<length ns]"

text \<open>A triangle graph, two angle tensors and an empty three-qubit circuit.\<close>

definition g_tri :: graph where
  "g_tri = \<lparr>nodes = [0, 1, 2], edges = [(0, 1), (1, 2), (0, 2)]\<rparr>"

definition t_scalar :: tensor where
  "t_scalar = \<lparr>tshape = [1], tdata = [7]\<rparr>"

definition t_two :: tensor where
  "t_two = \<lparr>tshape = [2], tdata = [4, 5]\<rparr>"

definition t_three :: tensor where
  "t_three = \<lparr>tshape = [3], tdata = [4, 5, 6]\<rparr>"

definition c_empty :: circuit where
  "c_empty = \<lparr>nqubits = 3, gates = []\<rparr>"

text \<open>An expectation function that tells index lists apart, for concrete runs.\<close>

definition toy_expectation :: "circuit \<Rightarrow> nat list \<Rightarrow> complex" where
  "toy_expectation c zs = of_nat (sum_list (map (\<lambda>z. 10 ^ z) zs))"

section \<open>Output, events and Python subscripts\<close>

text \<open>
  What a call prints, line by line. A table row keeps its two values; the format strings
  \<open>"%10s\t  |\t  %.4f"\<close> and \<open>"%10s\t  |\t%.4f"\<close> that render them are not modelled.
\<close>

datatype line =
    Text string
  | Prob_row string real
  | Cost_row string real
  | Loss_value tensor

text \<open>
  What a call does that the claims speak of, in the order it happens: a printed line,
  the Ising conversion, a parameter initialisation with its shape, a loss-and-gradient
  evaluation, an optimizer update, a probability query on the circuit.
\<close>

datatype event =
    Printed line
  | Ising_conversion
  | Param_init "int list"
  | Loss_grad_eval
  | Optimizer_update
  | Probability_query

text \<open>The subscript \<open>xs[i]\<close> of Python and numpy: a negative index counts from the end.\<close>

definition py_get :: "'a list \<Rightarrow> int \<Rightarrow> error + 'a" where
  "py_get xs i =
     (if 0 \<le> i \<and> i < int (length xs) then Inr (xs ! nat i)
      else if i < 0 \<and> - int (length xs) \<le> i then Inr (xs ! nat (int (length xs) + i))
      else Inl IndexError)"

text \<open>\<open>np.array(xs)[indices]\<close> with an array of non-negative indices.\<close>

definition fancy_index :: "'a list \<Rightarrow> nat list \<Rightarrow> error + 'a list" where
  "fancy_index xs idx =
     (if list_all (\<lambda>i. i < length xs) idx then Inr (map (\<lambda>i. xs ! i) idx) else Inl IndexError)"

text \<open>Sequencing two printing steps: an exception in the first skips the second.\<close>

definition and_then ::
  "event list \<times> error option \<Rightarrow> event list \<times> error option \<Rightarrow> event list \<times> error option"
where
  "and_then a b = (case snd a of Some e \<Rightarrow> a | None \<Rightarrow> (fst a @ fst b, snd b))"

definition tab :: char where
  "tab = CHR 0x09"

definition newline :: char where
  "newline = CHR 0x0A"

definition rule_line :: string where
  "rule_line = ''-------------------------------------''"

definition backend_message :: string where
  "backend_message = ''select a backend and assign it to K.''"

section \<open>The result reporter (QAOA\_funcs.py)\<close>

subsection \<open>The enumeration of basis states\<close>

text \<open>\<open>bin(i)[2:]\<close>, and \<open>f"{s:0>{n}}"\<close>: \<open>s\<close> padded on the left with zeros to width \<open>n\<close>.\<close>

fun bin_digits :: "nat \<Rightarrow> string" where
  "bin_digits i =
     (if i < 2 then [if i = 0 then CHR ''0'' else CHR ''1'']
      else bin_digits (i div 2) @ [if i mod 2 = 0 then CHR ''0'' else CHR ''1''])"

declare bin_digits.simps [simp del]

definition zero_pad :: "nat \<Rightarrow> string \<Rightarrow> string" where
  "zero_pad n s = replicate (n - length s) CHR ''0'' @ s"

definition states_of :: "nat \<Rightarrow> string list" where
  "states_of n = fold (\<lambda>i states. states @ [zero_pad n (bin_digits i)]) [0..<2 ^ n] []"

subsection \<open>The cost of a state\<close>

text \<open>
  \<open>x = np.array([int(bit) for bit in selection])\<close>; the characters are \<open>0\<close> and \<open>1\<close>.
  \<open>np.dot\<close> of a matrix and a vector, and of two vectors, raises \<open>ValueError\<close> when
  the shapes are not aligned.
\<close>

definition bits_of :: "string \<Rightarrow> real list" where
  "bits_of selection = map (\<lambda>bit. if bit = CHR ''1'' then 1 else 0) selection"

definition dot_mv :: "ndarray \<Rightarrow> real list \<Rightarrow> error + real list" where
  "dot_mv Q x =
     (if ncols Q \<noteq> length x then Inl ValueError
      else Inr (map (\<lambda>r. sum_list (map2 (*) r x)) (rows_of Q)))"

definition dot_vv :: "real list \<Rightarrow> real list \<Rightarrow> error + real" where
  "dot_vv x y = (if length x \<noteq> length y then Inl ValueError else Inr (sum_list (map2 (*) x y)))"

definition cost_of :: "ndarray \<Rightarrow> real list \<Rightarrow> error + real" where
  "cost_of Q x = (case dot_mv Q x of Inl e \<Rightarrow> Inl e | Inr y \<Rightarrow> dot_vv x y)"

text \<open>
  A dict is an association list in insertion order; \<open>d[k] = v\<close> is \<open>AList.update\<close>,
  which replaces the value of a key already there and appends a new key.
\<close>

definition cost_step ::
  "ndarray \<Rightarrow> string \<Rightarrow> error + (string \<times> real) list \<Rightarrow> error + (string \<times> real) list"
where
  "cost_step Q selection acc =
     (case acc of
        Inl e \<Rightarrow> Inl e
      | Inr cost_dict \<Rightarrow>
          (case cost_of Q (bits_of selection) of
             Inl e \<Rightarrow> Inl e
           | Inr v \<Rightarrow> Inr (AList.update selection v cost_dict)))"

definition dict_of :: "(string \<times> real) list \<Rightarrow> (string \<times> real) list" where
  "dict_of items = fold (\<lambda>item d. AList.update (fst item) (snd item) d) items []"

text \<open>
  \<open>sorted(items, key=lambda item: item[1], reverse=...)\<close>: Python's sort is stable, and
  with \<open>reverse=True\<close> it still keeps items of equal key in their original order (the
  list is reversed, sorted, and reversed again).
\<close>

definition sorted_by_value :: "(string \<times> real) list \<Rightarrow> bool \<Rightarrow> (string \<times> real) list" where
  "sorted_by_value items reverse =
     (if reverse then rev (sort_key snd (rev items)) else sort_key snd items)"

text \<open>The printing loop of the cost reports, with its counter \<open>num\<close> and its \<open>break\<close>.\<close>

fun cost_rows :: "(string \<times> real) list \<Rightarrow> nat \<Rightarrow> bool \<Rightarrow> event list" where
  "cost_rows [] num wrap = []"
| "cost_rows ((k, v) # rest) num wrap =
     Printed (Cost_row k v) #
       (if num + 1 \<ge> 8 \<and> wrap then [] else cost_rows rest (num + 1) wrap)"

text \<open>The three lines above the rows of a table; \<open>title\<close> is the second column's.\<close>

definition table_head :: "string \<Rightarrow> event list" where
  "table_head title =
     [Printed (Text (newline # rule_line)),
      Printed (Text (''    selection'' @ [tab] @ ''  |'' @ [tab] @ title)),
      Printed (Text rule_line)]"

definition cost_table :: "(string \<times> real) list \<Rightarrow> bool \<Rightarrow> event list" where
  "cost_table cost_sorted wrap =
     table_head ''  cost'' @ cost_rows cost_sorted 0 wrap @ [Printed (Text rule_line)]"

definition print_result_cost :: "circuit \<Rightarrow> ndarray \<Rightarrow> bool \<Rightarrow> bool \<Rightarrow> event list \<times> error option" where
  "print_result_cost c Q wrap reverse =
     (let n_qubits = nqubits c;
          states = states_of n_qubits
      in case fold (cost_step Q) states (Inr []) of
           Inl e \<Rightarrow> ([], Some e)
         | Inr cost_dict \<Rightarrow>
             let cost_sorted = dict_of (sorted_by_value cost_dict False);
                 cost_sorted = (if reverse then dict_of (sorted_by_value cost_dict True)
                                else cost_sorted)
             in (cost_table cost_sorted wrap, None))"

text \<open>
  \<open>print_Q_cost\<close> takes the number of states from \<open>len(Q)\<close>. Its enumeration loop also
  counts the ones of each state in \<open>n_ones\<close>, a value nothing reads.
\<close>

definition states_counting_ones :: "nat \<Rightarrow> string list" where
  "states_counting_ones n =
     fold (\<lambda>i states.
             let a = zero_pad n (bin_digits i);
                 n_ones = fold (\<lambda>j n_ones. if j = CHR ''1'' then n_ones + 1 else n_ones) a (0::nat)
             in states @ [a])
       [0..<2 ^ n] []"

definition print_Q_cost :: "ndarray \<Rightarrow> bool \<Rightarrow> bool \<Rightarrow> event list \<times> error option" where
  "print_Q_cost Q wrap reverse =
     (let n_stocks = nrows Q;
          states = states_counting_ones n_stocks
      in case fold (cost_step Q) states (Inr []) of
           Inl e \<Rightarrow> ([], Some e)
         | Inr cost_dict \<Rightarrow>
             let cost_sorted = dict_of (sorted_by_value cost_dict False);
                 cost_sorted = (if reverse then dict_of (sorted_by_value cost_dict True)
                                else cost_sorted)
             in (cost_table cost_sorted wrap, None))"

subsection \<open>The numerical backend \<open>K\<close>\<close>

text \<open>
  The backend is the global name \<open>K\<close>, bound or not: \<open>'o backend option\<close>. Its
  operations belong to the external engine and are fields of a record:
  \<open>K.value_and_grad\<close>, \<open>K.implicit_randn\<close> (its first argument counts the draws made
  so far, in place of the backend's random state), \<open>K.jit\<close>, \<open>K.optimizer\<close> (the
  optimizer's initial state for a learning rate) and the optimizer's \<open>update(grads, params)\<close>,
  which returns the new parameters and the optimizer's next state.

  A function made by \<open>K.value_and_grad\<close> returns the pair (value, gradient). The first
  component of what the loop's function returns, bound to \<open>loss\<close>, is a \<open>loss_output\<close>:
  the value tensor, or a whole (value, gradient) pair when \<open>tc.backend.vvag\<close> has
  been applied to a function that already returns such pairs. \<open>K.numpy\<close> converts a tensor
  to an array (the identity here); a pair is a tuple, which has no such conversion.
\<close>

datatype loss_output = Loss tensor | Value_grad_pair tensor tensor

definition K_numpy :: "loss_output \<Rightarrow> error + tensor" where
  "K_numpy l = (case l of Loss t \<Rightarrow> Inr t | Value_grad_pair v g \<Rightarrow> Inl AttributeError)"

record 'o backend =
  value_and_grad :: "(tensor \<Rightarrow> tensor) \<Rightarrow> tensor \<Rightarrow> tensor \<times> tensor"
  implicit_randn :: "nat \<Rightarrow> int list \<Rightarrow> real \<Rightarrow> tensor"
  jit :: "(tensor \<Rightarrow> loss_output \<times> tensor) \<Rightarrow> tensor \<Rightarrow> loss_output \<times> tensor"
  optimizer :: "real \<Rightarrow> 'o"
  opt_update :: "'o \<Rightarrow> tensor \<Rightarrow> tensor \<Rightarrow> tensor \<times> 'o"

subsection \<open>The probability report (\<open>print_result_prob\<close>)\<close>

text \<open>
  \<open>.round(decimals=4)\<close>: to the nearest multiple of \<open>10\<^sup>-\<^sup>4\<close>, a tie to the even one.
\<close>

definition round4 :: "real \<Rightarrow> real" where
  "round4 p =
     (let y = p * 10000;
          f = \<lfloor>y\<rfloor>;
          d = y - of_int f
      in of_int (if d < 1 / 2 then f else if 1 / 2 < d then f + 1
                 else if even f then f else f + 1) / 10000)"

text \<open>
  The rows printed for a list of subscripts \<open>i\<close>: \<open>state_sorted[i]\<close> and
  \<open>prob_sorted[i]\<close> are read, then the row is printed; a subscript out of range raises
  after the rows before it are out.
\<close>

fun prob_rows :: "string list \<Rightarrow> real list \<Rightarrow> int list \<Rightarrow> event list \<times> error option" where
  "prob_rows state_sorted prob_sorted [] = ([], None)"
| "prob_rows state_sorted prob_sorted (i # is) =
     (case py_get state_sorted i of
        Inl e \<Rightarrow> ([], Some e)
      | Inr s \<Rightarrow>
          (case py_get prob_sorted i of
             Inl e \<Rightarrow> ([], Some e)
           | Inr p \<Rightarrow>
               and_then ([Printed (Prob_row s p)], None)
                 (prob_rows state_sorted prob_sorted is)))"

definition prob_table :: "string list \<Rightarrow> string list \<Rightarrow> real list \<Rightarrow> bool \<Rightarrow> event list \<times> error option" where
  "prob_table states state_sorted prob_sorted wrap =
     and_then (table_head ''probability'', None)
       (and_then
          (if \<not> wrap
           then prob_rows state_sorted prob_sorted (map int [0..<length states])
           else and_then (prob_rows state_sorted prob_sorted [0, 1, 2, 3])
                  (and_then ([Printed (Text ''               ... ...'')], None)
                     (prob_rows state_sorted prob_sorted [- 4, - 3, - 2])))
          ([Printed (Text rule_line)], None))"

text \<open>
  \<open>c.probability()\<close> and \<open>np.argsort\<close> are external: the parameters \<open>probability\<close> and
  \<open>np_argsort\<close>. The \<open>try\<close> block prints the message when \<open>K\<close> is unbound and goes on;
  the next read of \<open>K\<close> is in \<open>K.numpy(c.probability())\<close>, where the name is looked
  up before the argument is evaluated.
\<close>

definition print_result_prob ::
  "'o backend option \<Rightarrow> (circuit \<Rightarrow> real list) \<Rightarrow> (real list \<Rightarrow> nat list) \<Rightarrow>
     circuit \<Rightarrow> bool \<Rightarrow> bool \<Rightarrow> event list \<times> error option"
where
  "print_result_prob K probability np_argsort c wrap reverse =
     and_then
       (case K of None \<Rightarrow> ([Printed (Text backend_message)], None) | Some k \<Rightarrow> ([], None))
       (let n_qubits = nqubits c;
            states = states_of n_qubits
        in case K of
             None \<Rightarrow> ([], Some NameError)
           | Some k \<Rightarrow>
               and_then ([Probability_query], None)
                 (let probs = map round4 (probability c);
                      sorted_indices = rev (np_argsort probs);
                      sorted_indices = (if reverse then rev sorted_indices else sorted_indices)
                  in case fancy_index states sorted_indices of
                       Inl e \<Rightarrow> ([], Some e)
                     | Inr state_sorted \<Rightarrow>
                         (case fancy_index probs sorted_indices of
                            Inl e \<Rightarrow> ([], Some e)
                          | Inr prob_sorted \<Rightarrow> prob_table states state_sorted prob_sorted wrap)))"

subsection \<open>The optimization loop (\<open>QUBO_QAOA\<close>)\<close>

text \<open>
  The loop over \<open>range(iterations)\<close>, with the parameters, the optimizer's state and the
  events so far. One pass evaluates loss and gradient, updates the parameters and, every
  100th pass, prints \<open>K.numpy(loss)\<close>; when that conversion raises, the loop ends there.
\<close>

fun opt_loop ::
  "'o backend \<Rightarrow> (tensor \<Rightarrow> loss_output \<times> tensor) \<Rightarrow> nat list \<Rightarrow>
     tensor \<Rightarrow> 'o \<Rightarrow> event list \<Rightarrow> event list \<times> (error + tensor)"
where
  "opt_loop k loss_val_grad_jit [] params opt ev = (ev, Inr params)"
| "opt_loop k loss_val_grad_jit (i # is) params opt ev =
     (case loss_val_grad_jit params of (loss, grads) \<Rightarrow>
        (case opt_update k opt grads params of (params', opt') \<Rightarrow>
           (if i mod 100 = 0
            then (case K_numpy loss of
                    Inl e \<Rightarrow> (ev @ [Loss_grad_eval, Optimizer_update], Inl e)
                  | Inr t \<Rightarrow>
                      opt_loop k loss_val_grad_jit is params' opt'
                        (ev @ [Loss_grad_eval, Optimizer_update, Printed (Loss_value t)]))
            else opt_loop k loss_val_grad_jit is params' opt'
                   (ev @ [Loss_grad_eval, Optimizer_update]))))"

text \<open>
  \<open>partial(ansatz, nlayers, pauli_terms, weights)\<close> is the partial application of
  \<open>ansatz\<close>. \<open>tc.backend.vvag\<close> is the parameter \<open>tc_vvag\<close>: the function it makes returns
  the wrapped function's whole result and a gradient. The source applies it to
  \<open>loss_val_grad\<close>, which is already the result of \<open>K.value_and_grad\<close>, so with \<open>vvag\<close>
  set the loop's \<open>loss\<close> is a (value, gradient) pair. As in \<open>print_result_prob\<close>, the
  \<open>try\<close> block prints and goes on; the conversion runs, and the next read of \<open>K\<close> is
  \<open>K.value_and_grad\<close>.
\<close>

definition QUBO_QAOA ::
  "'o backend option \<Rightarrow>
     ((tensor \<Rightarrow> tensor \<times> tensor) \<Rightarrow> tensor \<Rightarrow> (tensor \<times> tensor) \<times> tensor) \<Rightarrow>
     numpy_arith \<Rightarrow> ndarray \<Rightarrow> (int \<Rightarrow> real list list \<Rightarrow> real list \<Rightarrow> tensor \<Rightarrow> tensor) \<Rightarrow>
     int \<Rightarrow> int \<Rightarrow> bool \<Rightarrow> int \<Rightarrow> event list \<times> (error + tensor)"
where
  "QUBO_QAOA K tc_vvag ar Q ansatz nlayers iterations vvag ncircuits =
     (let ev = (case K of None \<Rightarrow> [Printed (Text backend_message)] | Some k \<Rightarrow> []);
          ev = ev @ [Ising_conversion]
      in case QUBO_to_Ising ar Q of
           Inl e \<Rightarrow> (ev, Inl e)
         | Inr (pauli_terms, weights, offset) \<Rightarrow>
             (case K of
                None \<Rightarrow> (ev, Inl NameError)
              | Some k \<Rightarrow>
                  let loss_val_grad = value_and_grad k (ansatz nlayers pauli_terms weights);
                      params = implicit_randn k 0 [2 * nlayers] (1 / 2);
                      ev = ev @ [Param_init [2 * nlayers]];
                      (loss_val_grad, params, ev) =
                        (if vvag
                         then ((\<lambda>p. case tc_vvag loss_val_grad p of
                                       ((v, g), grads) \<Rightarrow> (Value_grad_pair v g, grads)),
                               implicit_randn k 1 [ncircuits, 2 * nlayers] (1 / 10),
                               ev @ [Param_init [ncircuits, 2 * nlayers]])
                         else ((\<lambda>p. case loss_val_grad p of (v, grads) \<Rightarrow> (Loss v, grads)),
                               params, ev));
                      loss_val_grad_jit = jit k loss_val_grad;
                      opt = optimizer k (1 / 100)
                  in opt_loop k loss_val_grad_jit [0..<nat iterations] params opt ev))"

text \<open>A backend for concrete runs: standard-normal draws replaced by zeros, an optimizer
  that leaves the parameters as they are.\<close>

definition toy_backend :: "unit backend" where
  "toy_backend =
     \<lparr>value_and_grad = (\<lambda>f p. (f p, p)),
      implicit_randn = (\<lambda>d sh sd. \<lparr>tshape = sh, tdata = replicate (nat (prod_list sh)) 0\<rparr>),
      jit = (\<lambda>f. f),
      optimizer = (\<lambda>lr. ()),
      opt_update = (\<lambda>opt grads params. (params, opt))\<rparr>"

definition toy_vvag ::
  "(tensor \<Rightarrow> tensor \<times> tensor) \<Rightarrow> tensor \<Rightarrow> (tensor \<times> tensor) \<times> tensor"
where
  "toy_vvag f params = (f params, params)"

definition toy_ansatz :: "int \<Rightarrow> real list list \<Rightarrow> real list \<Rightarrow> tensor \<Rightarrow> tensor" where
  "toy_ansatz nlayers pauli_terms weights params = \<lparr>tshape = [], tdata = [sum_list weights]\<rparr>"

definition c_two :: circuit where
  "c_two = \<lparr>nqubits = 2, gates = [Rx 0 t_scalar]\<rparr>"

text \<open>The events the optimization loop counts.\<close>

definition is_update_event :: "event \<Rightarrow> bool" where
  "is_update_event e \<longleftrightarrow> e = Loss_grad_eval \<or> e = Optimizer_update"

text \<open>The table rows among the events of a call, in the order they were printed.\<close>

fun row_of :: "event \<Rightarrow> (string \<times> real) list" where
  "row_of (Printed (Prob_row s p)) = [(s, p)]"
| "row_of (Printed (Cost_row s v)) = [(s, v)]"
| "row_of e = []"

definition printed_rows :: "event list \<Rightarrow> (string \<times> real) list" where
  "printed_rows ev = concat (map row_of ev)"

text \<open>The states in enumeration order, each with its cost.\<close>

definition natural_costs :: "ndarray \<Rightarrow> nat \<Rightarrow> (string \<times> real) list" where
  "natural_costs Q n = map (\<lambda>s. (s, projr (cost_of Q (bits_of s)))) (states_of n)"

text \<open>The number a string of binary digits denotes.\<close>

definition bin_val :: "string \<Rightarrow> nat" where
  "bin_val s = foldl (\<lambda>a c. 2 * a + (if c = CHR ''1'' then 1 else 0)) 0 s"

text \<open>
  What \<open>np.argsort\<close> must return for the report to index without error: as many indices
  as there are states, each the index of a state and of a probability.
\<close>

definition argsort_in_range :: "nat list \<Rightarrow> nat \<Rightarrow> nat \<Rightarrow> bool" where
  "argsort_in_range idx n_states n_probs \<longleftrightarrow>
     length idx = n_states \<and> list_all (\<lambda>i. i < n_states \<and> i < n_probs) idx"

text \<open>
  An instance of \<open>np.argsort\<close> for concrete runs: the indices sorted by their values,
  equal values in index order.
\<close>

definition stable_argsort :: "real list \<Rightarrow> nat list" where
  "stable_argsort ps = sort_key (\<lambda>i. ps ! i) [0..<length ps]"

text \<open>Probabilities for concrete runs: eight different ones, and a tie on one qubit.\<close>

definition probability8 :: "circuit \<Rightarrow> real list" where
  "probability8 c = [30 / 100, 4 / 100, 10 / 100, 20 / 100, 15 / 100, 8 / 100, 7 / 100, 6 / 100]"

definition probability_tie :: "circuit \<Rightarrow> real list" where
  "probability_tie c = [1 / 2, 1 / 2]"

definition c_one :: circuit where
  "c_one = \<lparr>nqubits = 1, gates = []\<rparr>"

definition Q_diag :: ndarray where
  "Q_diag = \<lparr>nrows = 2, ncols = 2, rows_of = [[1, 0], [0, 1]]\<rparr>"

section \<open>Properties of the Ising converter\<close>

lemma fold_snoc_map: "fold (\<lambda>i pt. pt @ [f i]) xs acc = acc @ map f xs"
  by (induction xs arbitrary: acc) auto

lemma fold_pair_step:
  "fold (pair_step ar Q n i) js st =
     (fst st @ map (pair_term n i) js, snd st @ map (\<lambda>j. halve ar (entry Q i j)) js)"
  by (induction js arbitrary: st) (auto simp: pair_step_def)

lemma fold_pair_rows:
  "fold (\<lambda>i. fold (pair_step ar Q n i) [Suc i..<n]) is st =
     (fst st @ concat (map (\<lambda>i. map (pair_term n i) [Suc i..<n]) is),
      snd st @ concat (map (\<lambda>i. map (\<lambda>j. halve ar (entry Q i j)) [Suc i..<n]) is))"
  by (induction "is" arbitrary: st) (auto simp: fold_pair_step)

lemma concat_rows_drop_last:
  assumes "0 < n"
  shows "concat (map (\<lambda>i. map (g i) [Suc i..<n]) [0..<n - Suc 0]) =
         concat (map (\<lambda>i. map (g i) [Suc i..<n]) [0..<n])"
proof -
  from assms obtain m where n: "n = Suc m" by (cases n) auto
  show ?thesis unfolding n by simp
qed

lemma map_upper_pairs:
  "map (\<lambda>p. h (fst p) (snd p)) (upper_pairs n) =
     concat (map (\<lambda>i. map (h i) [Suc i..<n]) [0..<n])"
  by (simp add: upper_pairs_def map_concat comp_def)

lemma QUBO_to_Ising_closed:
  assumes "0 < nrows Q" "ncols Q = nrows Q"
  shows "QUBO_to_Ising ar Q =
    Inr (map (single_term (nrows Q)) [0..<nrows Q] @
           map (\<lambda>p. pair_term (nrows Q) (fst p) (snd p)) (upper_pairs (nrows Q)),
         map (\<lambda>r. halve ar (negative ar (sum_1d ar r))) (rows_of Q) @
           map (\<lambda>p. halve ar (entry Q (fst p) (snd p))) (upper_pairs (nrows Q)),
         halve ar (sum_2d ar (triu Q)))"
proof -
  let ?n = "nrows Q"
  let ?w = "map (\<lambda>r. halve ar (negative ar (sum_1d ar r))) (rows_of Q)"
  have "pair_loop ar Q ?n (map (single_term ?n) [0..<?n], ?w) =
     (map (single_term ?n) [0..<?n] @
           map (\<lambda>p. pair_term ?n (fst p) (snd p)) (upper_pairs ?n),
         ?w @ map (\<lambda>p. halve ar (entry Q (fst p) (snd p))) (upper_pairs ?n))"
    using assms(1)
    by (simp add: pair_loop_def fold_pair_rows concat_rows_drop_last
        map_upper_pairs [of "pair_term ?n"] map_upper_pairs [of "\<lambda>i j. halve ar (entry Q i j)"])
  then show ?thesis
    using assms by (simp add: QUBO_to_Ising_def Let_def fold_snoc_map)
qed

lemma QUBO_to_Ising_exact:
  assumes "0 < nrows Q" "ncols Q = nrows Q"
  shows "QUBO_to_Ising exact_arith Q =
    Inr (map (single_term (nrows Q)) [0..<nrows Q] @
           map (\<lambda>p. pair_term (nrows Q) (fst p) (snd p)) (upper_pairs (nrows Q)),
         map (\<lambda>r. - sum_list r / 2) (rows_of Q) @
           map (\<lambda>p. entry Q (fst p) (snd p) / 2) (upper_pairs (nrows Q)),
         sum_list (map sum_list (triu Q)) / 2)"
  unfolding QUBO_to_Ising_closed [OF assms] by (simp add: exact_arith_def)

lemma length_upper_pairs: "length (upper_pairs n) = n * (n - 1) div 2"
proof -
  have "length (upper_pairs n) = (\<Sum>i\<leftarrow>[0..<n]. n - Suc i)"
    by (simp add: upper_pairs_def length_concat comp_def)
  also have "\<dots> = (\<Sum>i<n. n - Suc i)"
    by (simp add: interv_sum_list_conv_sum_set_nat atLeast0LessThan)
  also have "\<dots> = (\<Sum>i<n. i)"
    by (rule sum.nat_diff_reindex)
  also have "\<dots> = n * (n - 1) div 2"
  proof -
    have "2 * (\<Sum>i<n. i) = n * (n - 1)"
      by (induction n) (auto simp: algebra_simps)
    then show ?thesis by simp
  qed
  finally show ?thesis .
qed

lemma single_term_indicator: "single_term n i = indicator_vec n {i}"
  by (rule nth_equalityI) (auto simp: single_term_def indicator_vec_def nth_list_update)

lemma pair_term_indicator: "pair_term n i j = indicator_vec n {i, j}"
proof (rule nth_equalityI)
  show "length (pair_term n i j) = length (indicator_vec n {i, j})"
    by (simp add: pair_term_def indicator_vec_def)
next
  fix l assume "l < length (pair_term n i j)"
  then have "l < n" by (simp add: pair_term_def)
  then show "pair_term n i j ! l = indicator_vec n {i, j} ! l"
    by (cases "l = j"; cases "l = i") (simp_all add: pair_term_def indicator_vec_def)
qed

lemma mem_upper_pairs: "(a, b) \<in> set (upper_pairs n) \<longleftrightarrow> a < b \<and> b < n"
proof
  assume "(a, b) \<in> set (upper_pairs n)"
  then show "a < b \<and> b < n" by (auto simp: upper_pairs_def)
next
  assume ab: "a < b \<and> b < n"
  then have "a \<in> {0..<n}" and "b \<in> {Suc a..<n}" by simp_all
  then have "\<exists>x\<in>{0..<n}. (a, b) \<in> Pair x ` {Suc x..<n}"
    by (intro bexI [of _ a] imageI)
  then show "(a, b) \<in> set (upper_pairs n)"
    by (simp add: upper_pairs_def)
qed

lemma set_upper_pairs: "set (upper_pairs n) = {(i, j). i < j \<and> j < n}"
proof (rule set_eqI)
  fix p :: "nat \<times> nat"
  show "p \<in> set (upper_pairs n) \<longleftrightarrow> p \<in> {(i, j). i < j \<and> j < n}"
    using mem_upper_pairs [of "fst p" "snd p" n] by (cases p) simp
qed

lemma sorted_rows:
  "sorted_wrt (<) is \<Longrightarrow>
   sorted_wrt row_major (concat (map (\<lambda>i. map (\<lambda>j. (i, j)) [Suc i..<n]) is))"
proof (induction "is")
  case Nil
  then show ?case by simp
next
  case (Cons i "is")
  have "sorted_wrt row_major (map (\<lambda>j. (i, j)) [Suc i..<n])"
    by (simp add: sorted_wrt_map row_major_def)
  moreover have "row_major (i, j) (i', j')" if "i' \<in> set is" for j i' j'
    using that Cons.prems by (auto simp: row_major_def)
  ultimately show ?case
    using Cons by (auto simp: sorted_wrt_append)
qed

lemma sorted_upper_pairs: "sorted_wrt row_major (upper_pairs n)"
  unfolding upper_pairs_def using sorted_rows [of "[0..<n]" n] by simp

lemma sum_list_triu_row:
  "i < n \<Longrightarrow> sum_list (map (\<lambda>j. if j < i then 0 else f j) [0..<n]) = (\<Sum>j = i..<n. f j)"
proof -
  assume "i < n"
  have "sum_list (map (\<lambda>j. if j < i then 0 else f j) [0..<n]) =
        (\<Sum>j = 0..<n. if j < i then 0 else f j)"
    by (simp add: interv_sum_list_conv_sum_set_nat)
  also have "\<dots> = (\<Sum>j = i..<n. f j)"
    by (rule sum.mono_neutral_cong_right) auto
  finally show ?thesis .
qed

lemma triu_sum_upper:
  "ncols Q = nrows Q \<Longrightarrow>
   sum_list (map sum_list (triu Q)) = (\<Sum>i = 0..<nrows Q. \<Sum>j = i..<nrows Q. entry Q i j)"
proof -
  assume sq: "ncols Q = nrows Q"
  have "sum_list (map sum_list (triu Q)) =
        (\<Sum>i = 0..<nrows Q. sum_list (map (\<lambda>j. if j < i then 0 else entry Q i j) [0..<nrows Q]))"
    by (simp add: triu_def comp_def interv_sum_list_conv_sum_set_nat sq)
  also have "\<dots> = (\<Sum>i = 0..<nrows Q. \<Sum>j = i..<nrows Q. entry Q i j)"
    by (rule sum.cong) (simp_all add: sum_list_triu_row)
  finally show ?thesis .
qed

lemma Q22_run:
  "QUBO_to_Ising exact_arith Q22 = Inr ([[1, 0], [0, 1], [1, 1]], [- 3 / 2, - 5 / 2, 1], 3)"
  by (simp add: QUBO_to_Ising_exact Q22_def upper_pairs_def single_term_def pair_term_def
      triu_def entry_def eval_nat_numeral)

lemma Q22_wf: "wf_ndarray Q22 \<and> is_square Q22 \<and> 0 < nrows Q22"
  by (simp add: Q22_def wf_ndarray_def is_square_def)

lemma Q00_run: "QUBO_to_Ising ar Q00 = Inl IndexError"
  by (simp add: QUBO_to_Ising_def Q00_def)

text \<open>
  The layout of the outputs, in whatever arithmetic numpy uses. For every well-formed
  square array \<open>Q\<close> with at least one row (\<open>n = nrows Q\<close>), \<open>QUBO_to_Ising\<close> returns
  \<open>n (n + 1) / 2\<close> Pauli terms and as many weights; term \<open>i < n\<close> is the indicator
  vector of \<open>{i}\<close> and its weight is numpy's \<open>-sum(Q[i, :]) / 2\<close>; term \<open>n + k\<close> is the
  indicator vector of the \<open>k\<close>-th pair \<open>(i, j)\<close> of \<open>upper_pairs n\<close> and its weight is
  numpy's \<open>Q[i][j] / 2\<close>; \<open>upper_pairs n\<close> lists exactly the pairs \<open>i < j < n\<close> in
  row-major order; and the offset is numpy's \<open>np.triu(Q, 0).sum() / 2\<close>.
\<close>

theorem QUBO_to_Ising_layout:
  assumes "wf_ndarray Q" and "is_square Q" and "0 < nrows Q"
  shows "\<exists>pauli_terms weights offset.
     QUBO_to_Ising ar Q = Inr (pauli_terms, weights, offset) \<and>
     length pauli_terms = nrows Q * (nrows Q + 1) div 2 \<and>
     length weights = length pauli_terms \<and>
     (\<forall>i < nrows Q.
        pauli_terms ! i = indicator_vec (nrows Q) {i} \<and>
        weights ! i = halve ar (negative ar (sum_1d ar (rows_of Q ! i)))) \<and>
     (\<forall>k < length (upper_pairs (nrows Q)).
        pauli_terms ! (nrows Q + k) =
          indicator_vec (nrows Q) {fst (upper_pairs (nrows Q) ! k), snd (upper_pairs (nrows Q) ! k)} \<and>
        weights ! (nrows Q + k) =
          halve ar (entry Q (fst (upper_pairs (nrows Q) ! k)) (snd (upper_pairs (nrows Q) ! k)))) \<and>
     sorted_wrt row_major (upper_pairs (nrows Q)) \<and>
     set (upper_pairs (nrows Q)) = {(i, j). i < j \<and> j < nrows Q} \<and>
     offset = halve ar (sum_2d ar (triu Q))"
proof -
  let ?n = "nrows Q"
  let ?ups = "upper_pairs ?n"
  let ?pt = "map (single_term ?n) [0..<?n] @ map (\<lambda>p. pair_term ?n (fst p) (snd p)) ?ups"
  let ?ws = "map (\<lambda>r. halve ar (negative ar (sum_1d ar r))) (rows_of Q) @
             map (\<lambda>p. halve ar (entry Q (fst p) (snd p))) ?ups"
  from assms have sq: "ncols Q = ?n" and len: "length (rows_of Q) = ?n"
    by (simp_all add: is_square_def wf_ndarray_def)
  have run: "QUBO_to_Ising ar Q = Inr (?pt, ?ws, halve ar (sum_2d ar (triu Q)))"
    using assms(3) sq by (rule QUBO_to_Ising_closed)
  have "?n * (?n + 1) div 2 = ?n + ?n * (?n - 1) div 2"
  proof -
    have "?n * (?n + 1) = 2 * ?n + ?n * (?n - 1)"
      using assms(3) by (cases ?n) (simp_all add: algebra_simps)
    then show ?thesis by simp
  qed
  then have l1: "length ?pt = ?n * (?n + 1) div 2"
    by (simp add: length_upper_pairs)
  have l2: "length ?ws = length ?pt"
    by (simp add: len)
  have s: "\<forall>i < ?n. ?pt ! i = indicator_vec ?n {i} \<and>
             ?ws ! i = halve ar (negative ar (sum_1d ar (rows_of Q ! i)))"
    by (simp add: nth_append len single_term_indicator)
  have p: "\<forall>k < length ?ups.
        ?pt ! (?n + k) = indicator_vec ?n {fst (?ups ! k), snd (?ups ! k)} \<and>
        ?ws ! (?n + k) = halve ar (entry Q (fst (?ups ! k)) (snd (?ups ! k)))"
    by (simp add: nth_append len pair_term_indicator)
  show ?thesis
    unfolding run using l1 l2 s p sorted_upper_pairs [of ?n] set_upper_pairs [of ?n]
    by blast
qed

theorem QUBO_to_Ising_layout_witness:
  "wf_ndarray Q22 \<and> is_square Q22 \<and> 0 < nrows Q22 \<and>
   (\<exists>pauli_terms weights offset.
      QUBO_to_Ising exact_arith Q22 = Inr (pauli_terms, weights, offset) \<and>
      length pauli_terms = 3 \<and> length weights = 3)"
proof -
  have n: "nrows Q22 = 2" by (simp add: Q22_def)
  have h: "wf_ndarray Q22" "is_square Q22" "0 < nrows Q22"
    using Q22_wf by simp_all
  from QUBO_to_Ising_layout [OF h, of exact_arith] obtain pt ws off where
    "QUBO_to_Ising exact_arith Q22 = Inr (pt, ws, off)"
    "length pt = nrows Q22 * (nrows Q22 + 1) div 2" "length ws = length pt"
    by blast
  then have "QUBO_to_Ising exact_arith Q22 = Inr (pt, ws, off) \<and> length pt = 3 \<and> length ws = 3"
    by (simp add: n)
  with h show ?thesis by blast
qed

text \<open>
  Claim C2. The claim: for every square \<open>n\<close>-by-\<open>n\<close> array \<open>QUBO_to_Ising\<close> returns
  \<open>n (n + 1) / 2\<close> terms with their weights and the offset. The array \<open>np.zeros((0, 0))\<close>
  is square with \<open>n = 0\<close>, for which the claim promises no terms, no weights and the
  offset of an empty sum. The call returns nothing: \<open>Q[0]\<close> in the shape check raises
  \<open>IndexError\<close>, in whatever arithmetic numpy uses.
\<close>

theorem QUBO_to_Ising_layout_fails_on_empty:
  "wf_ndarray Q00 \<and> is_square Q00 \<and> nrows Q00 * (nrows Q00 + 1) div 2 = 0 \<and>
   QUBO_to_Ising ar Q00 = Inl IndexError"
  by (simp add: Q00_run) (simp add: Q00_def wf_ndarray_def is_square_def)

text \<open>
  Claim C8. The claim: \<open>QUBO_to_Ising\<close> raises the \<open>ValueError\<close> exactly when its input
  is not square. The array \<open>np.zeros((0, 3))\<close> is well formed and not square, and the
  call raises \<open>IndexError\<close> from \<open>Q[0]\<close>, not the \<open>ValueError\<close> of the shape check.
\<close>

theorem QUBO_to_Ising_no_rows_not_square:
  "wf_ndarray Q03 \<and> \<not> is_square Q03 \<and> QUBO_to_Ising ar Q03 = Inl IndexError \<and>
   QUBO_to_Ising ar Q03 \<noteq> Inl ValueError"
  by (simp add: QUBO_to_Ising_def Q03_def wf_ndarray_def is_square_def)

text \<open>
  The shape check on every input: the \<open>ValueError\<close> is raised exactly for the arrays
  with at least one row that are not square, and a call that raises returns no outputs.
\<close>

theorem QUBO_to_Ising_ValueError_iff:
  "QUBO_to_Ising ar Q = Inl ValueError \<longleftrightarrow> 0 < nrows Q \<and> \<not> is_square Q"
  by (auto simp: QUBO_to_Ising_def Let_def is_square_def split: prod.splits)

section \<open>Properties of the loss evaluator\<close>

lemma fold_collect_filter:
  "fold (\<lambda>l acc. if P l then acc @ [l] else acc) ls acc = acc @ filter P ls"
  by (induction ls arbitrary: acc) auto

lemma index_of_ones_marked: "index_of_ones t = marked_positions t"
  by (simp add: index_of_ones_def marked_positions_def fold_collect_filter)

lemma delta_loss_take2:
  assumes "k < length ws" and "ones \<noteq> []"
  shows "delta_loss E c ws k ones = Inr (complex_of_real (ws ! k) * E c (take 2 ones))"
proof (cases ones)
  case Nil
  with assms show ?thesis by simp
next
  case (Cons i r)
  then show ?thesis using assms(1)
    by (cases r) (simp_all add: delta_loss_def)
qed

lemma delta_loss_empty: "delta_loss E c ws k [] = Inl IndexError"
  by (simp add: delta_loss_def)

lemma delta_loss_error: "delta_loss E c ws k ones = Inl e \<Longrightarrow> e = IndexError"
  by (auto simp: delta_loss_def split: if_splits)

lemma loss_step_Inl: "loss_step E c pts ws k (Inl e) = Inl e"
  by (simp add: loss_step_def)

lemma loss_step_Inr:
  "loss_step E c pts ws k (Inr a) =
     (case delta_loss E c ws k (index_of_ones (pts ! k)) of
        Inl e \<Rightarrow> Inl e
      | Inr d \<Rightarrow> Inr (a + d))"
  by (simp add: loss_step_def)

lemma fold_loss_step_Inl: "fold (loss_step E c pts ws) ks (Inl e) = Inl e"
  by (induction ks) (simp_all add: loss_step_Inl)

lemma fold_loss_step_ok:
  assumes "\<forall>k \<in> set ks. k < length ws \<and> index_of_ones (pts ! k) \<noteq> []"
  shows "fold (loss_step E c pts ws) ks (Inr a) =
         Inr (a + (\<Sum>k\<leftarrow>ks. complex_of_real (ws ! k) * E c (take 2 (index_of_ones (pts ! k)))))"
  using assms
proof (induction ks arbitrary: a)
  case Nil
  then show ?case by simp
next
  case (Cons k ks)
  then have "k < length ws" and "index_of_ones (pts ! k) \<noteq> []" by simp_all
  then have "loss_step E c pts ws k (Inr a) =
      Inr (a + complex_of_real (ws ! k) * E c (take 2 (index_of_ones (pts ! k))))"
    by (simp add: loss_step_Inr delta_loss_take2)
  with Cons show ?case by (simp add: add.assoc)
qed

lemma fold_loss_step_empty_term:
  assumes "k \<in> set ks" and "index_of_ones (pts ! k) = []"
  shows "fold (loss_step E c pts ws) ks (Inr a) = Inl IndexError"
  using assms(1)
proof (induction ks arbitrary: a)
  case Nil
  then show ?case by simp
next
  case (Cons j ks)
  show ?case
  proof (cases "delta_loss E c ws j (index_of_ones (pts ! j))")
    case (Inl e')
    then have "e' = IndexError" by (rule delta_loss_error)
    with Inl show ?thesis by (simp add: loss_step_Inr fold_loss_step_Inl)
  next
    case (Inr d)
    then have "j \<noteq> k" using assms(2) by (auto simp: delta_loss_empty)
    with Cons.prems have "k \<in> set ks" by simp
    then have "fold (loss_step E c pts ws) ks (Inr (a + d)) = Inl IndexError"
      by (rule Cons.IH)
    with Inr show ?thesis by (simp add: loss_step_Inr)
  qed
qed

text \<open>
  Claim C10. \<open>Ising_loss\<close> reads at most the first two marked positions of a term.
  When every term marks at least one position (and there is a weight for every term),
  the loss is the real part of the sum over the terms of the weight times the expectation
  on the first two marked positions (\<open>take 2\<close>): the single-qubit expectation for one
  marked position, the two-qubit correlator of the first two for two or more, whatever
  other positions are marked. When some term marks no position, the call raises
  \<open>IndexError\<close> and returns no value.
\<close>

theorem Ising_loss_first_two_marked:
  "(length pauli_terms \<le> length weights \<and> (\<forall>t \<in> set pauli_terms. marked_positions t \<noteq> []) \<longrightarrow>
      Ising_loss expectation_ps c pauli_terms weights =
        Inr (Re (\<Sum>k\<leftarrow>[0..<length pauli_terms].
                   complex_of_real (weights ! k) *
                   expectation_ps c (take 2 (marked_positions (pauli_terms ! k)))))) \<and>
   ((\<exists>t \<in> set pauli_terms. marked_positions t = []) \<longrightarrow>
      Ising_loss expectation_ps c pauli_terms weights = Inl IndexError)"
proof (intro conjI impI)
  assume h: "length pauli_terms \<le> length weights \<and>
             (\<forall>t \<in> set pauli_terms. marked_positions t \<noteq> [])"
  then have "\<forall>k \<in> set [0..<length pauli_terms].
      k < length weights \<and> index_of_ones (pauli_terms ! k) \<noteq> []"
    by (simp add: index_of_ones_marked)
  from fold_loss_step_ok [OF this, of expectation_ps c 0]
  show "Ising_loss expectation_ps c pauli_terms weights =
        Inr (Re (\<Sum>k\<leftarrow>[0..<length pauli_terms].
                   complex_of_real (weights ! k) *
                   expectation_ps c (take 2 (marked_positions (pauli_terms ! k)))))"
    by (simp add: Ising_loss_def index_of_ones_marked)
next
  assume "\<exists>t \<in> set pauli_terms. marked_positions t = []"
  then obtain k where "k < length pauli_terms" "marked_positions (pauli_terms ! k) = []"
    by (auto simp: in_set_conv_nth)
  then have "k \<in> set [0..<length pauli_terms]" "index_of_ones (pauli_terms ! k) = []"
    by (simp_all add: index_of_ones_marked)
  from fold_loss_step_empty_term [OF this, of expectation_ps c weights 0]
  show "Ising_loss expectation_ps c pauli_terms weights = Inl IndexError"
    by (simp add: Ising_loss_def)
qed

lemma marked_111: "marked_positions [1, 1, 1] = [0, 1, 2]"
  by (simp add: marked_positions_def upt_conv_Cons)

lemma marked_010: "marked_positions [0, 1, 0] = [1]"
  by (simp add: marked_positions_def upt_conv_Cons)

lemma marked_00: "marked_positions [0, 0] = []"
  by (simp add: marked_positions_def upt_conv_Cons)

theorem Ising_loss_first_two_marked_witness:
  "Ising_loss toy_expectation c_empty [[1, 1, 1], [0, 1, 0]] [2, 3] = Inr 52 \<and>
   Ising_loss toy_expectation c_empty [[0, 0]] [1] = Inl IndexError"
proof
  have "length [[1, 1, 1], [0, 1, 0::real]] \<le> length [2, 3::real] \<and>
        (\<forall>t \<in> set [[1, 1, 1], [0, 1, 0::real]]. marked_positions t \<noteq> [])"
    by (simp add: marked_111 marked_010)
  with Ising_loss_first_two_marked [of "[[1, 1, 1], [0, 1, 0]]" "[2, 3]" toy_expectation c_empty]
  show "Ising_loss toy_expectation c_empty [[1, 1, 1], [0, 1, 0]] [2, 3] = Inr 52"
    by (simp add: marked_111 marked_010 toy_expectation_def upt_conv_Cons)
next
  have "\<exists>t \<in> set [[0, 0::real]]. marked_positions t = []"
    by (simp add: marked_00)
  with Ising_loss_first_two_marked [of "[[0, 0]]" "[1]" toy_expectation c_empty]
  show "Ising_loss toy_expectation c_empty [[0, 0]] [1] = Inl IndexError"
    by blast
qed

section \<open>Properties of the QAOA block\<close>

lemma zz_shared_gates:
  "zz_shared t kw es c = c\<lparr>gates := gates c @ map (\<lambda>e. Exp1_zz (fst e) (snd e) t kw) es\<rparr>"
  unfolding zz_shared_def
  by (induction es arbitrary: c) (auto simp: case_prod_beta)

lemma rx_shared_gates:
  "rx_shared t ns c = c\<lparr>gates := gates c @ map (\<lambda>n. Rx n t) ns\<rparr>"
  unfolding rx_shared_def
  by (induction ns arbitrary: c) auto

lemma map_upt_shift:
  "map f [0..<Suc n] = f 0 # map (\<lambda>k. f (Suc k)) [0..<n]"
  by (simp add: upt_conv_Cons map_Suc_upt [symmetric] del: upt_Suc)

lemma zz_indexed_gates:
  assumes "\<forall>k < length es. \<exists>th. tensor_getitem t (i + k) = Inr th"
  shows "zz_indexed t kw es i c =
     (c\<lparr>gates := gates c @
          map (\<lambda>k. Exp1_zz (fst (es ! k)) (snd (es ! k)) (projr (tensor_getitem t (i + k))) kw)
            [0..<length es]\<rparr>, None)"
  using assms
proof (induction es arbitrary: i c)
  case Nil
  then show ?case by simp
next
  case (Cons e es)
  obtain e1 e2 where e: "e = (e1, e2)" by (cases e)
  from Cons.prems obtain th where th: "tensor_getitem t i = Inr th"
    by fastforce
  have "\<forall>k < length es. \<exists>th. tensor_getitem t (Suc i + k) = Inr th"
    using Cons.prems by fastforce
  from Cons.IH [OF this] show ?case
    by (simp add: e th map_upt_shift del: upt_Suc)
qed

lemma rx_indexed_gates:
  assumes "\<forall>k < length ns. \<exists>th. tensor_getitem t (i + k) = Inr th"
  shows "rx_indexed t ns i c =
     (c\<lparr>gates := gates c @
          map (\<lambda>k. Rx (ns ! k) (projr (tensor_getitem t (i + k)))) [0..<length ns]\<rparr>, None)"
  using assms
proof (induction ns arbitrary: i c)
  case Nil
  then show ?case by simp
next
  case (Cons n ns)
  from Cons.prems obtain th where th: "tensor_getitem t i = Inr th"
    by fastforce
  have "\<forall>k < length ns. \<exists>th. tensor_getitem t (Suc i + k) = Inr th"
    using Cons.prems by fastforce
  from Cons.IH [OF this] show ?case
    by (simp add: th map_upt_shift del: upt_Suc)
qed

lemma zz_part:
  assumes "\<forall>k < length es. \<exists>th. angle_for t k = Inr th"
  shows "(if sizen t = 1 then (zz_shared t kw es c, None) else zz_indexed t kw es 0 c) =
         (c\<lparr>gates := gates c @ zz_gates t kw es\<rparr>, None)"
proof (cases "sizen t = 1")
  case True
  have "map (\<lambda>e. Exp1_zz (fst e) (snd e) t kw) es =
        map (\<lambda>k. Exp1_zz (fst (es ! k)) (snd (es ! k)) t kw) [0..<length es]"
    by (rule nth_equalityI) simp_all
  with True show ?thesis
    by (simp add: zz_shared_gates zz_gates_def angle_for_def)
next
  case False
  with assms have "\<forall>k < length es. \<exists>th. tensor_getitem t (0 + k) = Inr th"
    by (simp add: angle_for_def)
  from zz_indexed_gates [OF this] False show ?thesis
    by (simp add: zz_gates_def angle_for_def)
qed

lemma rx_part:
  assumes "\<forall>k < length ns. \<exists>th. angle_for t k = Inr th"
  shows "(if sizen t = 1 then (rx_shared t ns c, None) else rx_indexed t ns 0 c) =
         (c\<lparr>gates := gates c @ rx_gates t ns\<rparr>, None)"
proof (cases "sizen t = 1")
  case True
  have "map (\<lambda>n. Rx n t) ns = map (\<lambda>k. Rx (ns ! k) t) [0..<length ns]"
    by (rule nth_equalityI) simp_all
  with True show ?thesis
    by (simp add: rx_shared_gates rx_gates_def angle_for_def)
next
  case False
  with assms have "\<forall>k < length ns. \<exists>th. tensor_getitem t (0 + k) = Inr th"
    by (simp add: angle_for_def)
  from rx_indexed_gates [OF this] False show ?thesis
    by (simp add: rx_gates_def angle_for_def)
qed

text \<open>
  Claim C7, as amended. When each angle tensor either has one entry or has an entry for
  every edge (respectively node), \<open>QAOA_block\<close> raises nothing and appends to the circuit one
  ZZ-rotation per edge, in the order of \<open>g.edges\<close>, then one X-rotation per node, in the
  order of \<open>g.nodes\<close>; independently for the two tensors, the angle of edge (node) \<open>k\<close>
  is the whole tensor when its element count is 1 and its entry \<open>k\<close> otherwise.
\<close>

theorem QAOA_block_gates:
  assumes "\<forall>k < length (edges g). \<exists>th. angle_for paramzz k = Inr th"
    and "\<forall>k < length (nodes g). \<exists>th. angle_for paramx k = Inr th"
  shows "QAOA_block c g paramzz paramx kw =
     (c\<lparr>gates := gates c @ zz_gates paramzz kw (edges g) @ rx_gates paramx (nodes g)\<rparr>, None)"
  unfolding QAOA_block_def zz_part [OF assms(1)]
  using rx_part [OF assms(2)] by simp

lemma angle_scalar: "angle_for t_scalar k = Inr t_scalar"
  by (simp add: angle_for_def sizen_def t_scalar_def)

lemma angle_three:
  "angle_for t_three 0 = Inr \<lparr>tshape = [], tdata = [4]\<rparr>"
  "angle_for t_three 1 = Inr \<lparr>tshape = [], tdata = [5]\<rparr>"
  "angle_for t_three 2 = Inr \<lparr>tshape = [], tdata = [6]\<rparr>"
  by (simp_all add: angle_for_def sizen_def t_three_def tensor_getitem_def)

lemma angle_three_Suc:
  "angle_for t_three (Suc 0) = Inr \<lparr>tshape = [], tdata = [5]\<rparr>"
  "angle_for t_three (Suc (Suc 0)) = Inr \<lparr>tshape = [], tdata = [6]\<rparr>"
  using angle_three by (simp_all add: numeral_2_eq_2)

theorem QAOA_block_gates_witness:
  "QAOA_block c_empty g_tri t_scalar t_three [] =
     (\<lparr>nqubits = 3,
       gates = [Exp1_zz 0 1 t_scalar [], Exp1_zz 1 2 t_scalar [], Exp1_zz 0 2 t_scalar [],
                Rx 0 \<lparr>tshape = [], tdata = [4]\<rparr>, Rx 1 \<lparr>tshape = [], tdata = [5]\<rparr>,
                Rx 2 \<lparr>tshape = [], tdata = [6]\<rparr>]\<rparr>, None)"
proof -
  have zz: "\<forall>k < length (edges g_tri). \<exists>th. angle_for t_scalar k = Inr th"
    by (simp add: angle_scalar)
  have "\<exists>th. angle_for t_three k = Inr th" if "k < 3" for k
  proof -
    from that have "k = 0 \<or> k = 1 \<or> k = 2" by arith
    then show ?thesis using angle_three by fastforce
  qed
  then have x: "\<forall>k < length (nodes g_tri). \<exists>th. angle_for t_three k = Inr th"
    by (simp add: g_tri_def)
  show ?thesis
    unfolding QAOA_block_gates [OF zz x]
    by (simp add: c_empty_def g_tri_def zz_gates_def rx_gates_def angle_scalar angle_three
        angle_three_Suc upt_conv_Cons)
qed

text \<open>
  Claim C7 as stated covers every pair of angle tensors, hence a tensor of two angles
  for a graph of three edges. There the call applies the ZZ-rotation to the first two
  edges, raises \<open>IndexError\<close> at \<open>paramzz[2]\<close> and applies no X-rotation: not one gate per
  edge and per node.
\<close>

theorem QAOA_block_short_tensor_raises:
  "QAOA_block c_empty g_tri t_two t_scalar [] =
     (\<lparr>nqubits = 3,
       gates = [Exp1_zz 0 1 \<lparr>tshape = [], tdata = [4]\<rparr> [],
                Exp1_zz 1 2 \<lparr>tshape = [], tdata = [5]\<rparr> []]\<rparr>, Some IndexError)"
  by (simp add: QAOA_block_def sizen_def t_two_def g_tri_def c_empty_def tensor_getitem_def)

section \<open>Properties of the optimization loop and the missing backend\<close>

lemma QUBO_to_Ising_Inr:
  assumes "0 < nrows Q" and "is_square Q"
  shows "\<exists>pt ws off. QUBO_to_Ising ar Q = Inr (pt, ws, off)"
proof -
  from assms(2) have "ncols Q = nrows Q" by (simp add: is_square_def)
  from QUBO_to_Ising_closed [OF assms(1) this] show ?thesis by blast
qed

lemma opt_loop_all_steps:
  assumes upd: "\<And>opt grads params. tshape (fst (opt_update k opt grads params)) = tshape params"
    and loss: "\<And>params. \<exists>t grads. f params = (Loss t, grads)"
  shows "\<exists>params' ev'.
     opt_loop k f is params opt ev = (ev', Inr params') \<and>
     tshape params' = tshape params \<and>
     filter is_update_event ev' =
       filter is_update_event ev @ concat (replicate (length is) [Loss_grad_eval, Optimizer_update])"
proof (induction "is" arbitrary: params opt ev)
  case Nil
  then show ?case by simp
next
  case (Cons i "is")
  from loss [of params] obtain t grads where f: "f params = (Loss t, grads)" by blast
  obtain p1 o1 where u: "opt_update k opt grads params = (p1, o1)"
    by (cases "opt_update k opt grads params")
  let ?ev1 = "ev @ [Loss_grad_eval, Optimizer_update] @
                 (if i mod 100 = 0 then [Printed (Loss_value t)] else [])"
  have step: "opt_loop k f (i # is) params opt ev = opt_loop k f is p1 o1 ?ev1"
    by (simp add: f u K_numpy_def)
  have sh: "tshape p1 = tshape params"
    using upd [of opt grads params] by (simp add: u)
  have ev1: "filter is_update_event ?ev1 =
             filter is_update_event ev @ [Loss_grad_eval, Optimizer_update]"
    by (simp add: is_update_event_def)
  from Cons.IH [of p1 o1 ?ev1] obtain params' ev' where
    "opt_loop k f is p1 o1 ?ev1 = (ev', Inr params')"
    "tshape params' = tshape p1"
    "filter is_update_event ev' =
       filter is_update_event ?ev1 @ concat (replicate (length is) [Loss_grad_eval, Optimizer_update])"
    by blast
  then show ?case
    using step sh ev1 by simp
qed

text \<open>
  The loop without \<open>vvag\<close>. With a backend bound to \<open>K\<close> whose \<open>implicit_randn\<close> returns
  a tensor of the shape asked for, whose \<open>jit\<close> returns a function that behaves as the
  one it is given and whose optimizer update keeps the shape of the parameters, and for
  a square \<open>Q\<close> with at least one row, \<open>QUBO_QAOA\<close> with \<open>vvag = False\<close> returns: the
  loss-and-gradient evaluations and optimizer updates it performs are exactly
  \<open>iterations\<close> evaluations, each followed by one update (whatever the losses are), and
  the returned tensor has shape \<open>[2 * nlayers]\<close>.
\<close>

theorem QUBO_QAOA_runs_all_iterations:
  assumes "is_square Q" and "0 < nrows Q"
    and "\<forall>d sh sd. tshape (implicit_randn k d sh sd) = sh"
    and "\<forall>f. jit k f = f"
    and "\<forall>opt grads params. tshape (fst (opt_update k opt grads params)) = tshape params"
  shows "\<exists>ev params.
     QUBO_QAOA (Some k) tc_vvag ar Q ansatz nlayers iterations False ncircuits =
       (ev, Inr params) \<and>
     filter is_update_event ev =
       concat (replicate (nat iterations) [Loss_grad_eval, Optimizer_update]) \<and>
     tshape params = [2 * nlayers]"
proof -
  from QUBO_to_Ising_Inr [OF assms(2,1)] obtain pt ws off where
    conv: "QUBO_to_Ising ar Q = Inr (pt, ws, off)" by blast
  let ?lvg = "value_and_grad k (ansatz nlayers pt ws)"
  let ?f = "\<lambda>p. case ?lvg p of (v, grads) \<Rightarrow> (Loss v, grads)"
  let ?p0 = "implicit_randn k 0 [2 * nlayers] (1 / 2)"
  let ?ev0 = "[Ising_conversion, Param_init [2 * nlayers]]"
  have upd: "\<And>opt grads params. tshape (fst (opt_update k opt grads params)) = tshape params"
    using assms(5) by simp
  have loss: "\<And>params. \<exists>t grads. ?f params = (Loss t, grads)"
    by (simp add: split_beta)
  from opt_loop_all_steps [of k ?f "[0..<nat iterations]" ?p0 "optimizer k (1 / 100)" ?ev0,
      OF upd loss]
  obtain params' ev' where
    run: "opt_loop k ?f [0..<nat iterations] ?p0 (optimizer k (1 / 100)) ?ev0 =
          (ev', Inr params')"
    and sh: "tshape params' = tshape ?p0"
    and ev: "filter is_update_event ev' =
       filter is_update_event ?ev0 @
         concat (replicate (length [0..<nat iterations]) [Loss_grad_eval, Optimizer_update])"
    by blast
  have "QUBO_QAOA (Some k) tc_vvag ar Q ansatz nlayers iterations False ncircuits =
        (ev', Inr params')"
    using run assms(4) by (simp add: QUBO_QAOA_def conv Let_def)
  moreover have "tshape params' = [2 * nlayers]"
    using sh assms(3) by simp
  moreover have "filter is_update_event ev' =
      concat (replicate (nat iterations) [Loss_grad_eval, Optimizer_update])"
    using ev by (simp add: is_update_event_def)
  ultimately show ?thesis by blast
qed

theorem QUBO_QAOA_runs_all_iterations_witness:
  "is_square Q22 \<and> 0 < nrows Q22 \<and>
   (\<exists>ev params.
      QUBO_QAOA (Some toy_backend) toy_vvag exact_arith Q22 toy_ansatz 1 3 False 10 =
        (ev, Inr params) \<and>
      filter is_update_event ev =
        [Loss_grad_eval, Optimizer_update, Loss_grad_eval, Optimizer_update,
         Loss_grad_eval, Optimizer_update] \<and>
      tshape params = [2])"
proof -
  have h: "is_square Q22" "0 < nrows Q22"
    by (simp_all add: Q22_def is_square_def)
  have b1: "\<forall>d sh sd. tshape (implicit_randn toy_backend d sh sd) = sh"
    by (simp add: toy_backend_def)
  have b2: "\<forall>f. jit toy_backend f = f"
    by (simp add: toy_backend_def)
  have b3: "\<forall>opt grads params.
      tshape (fst (opt_update toy_backend opt grads params)) = tshape params"
    by (simp add: toy_backend_def)
  from QUBO_QAOA_runs_all_iterations [OF h b1 b2 b3, of toy_vvag exact_arith toy_ansatz 1 3 10]
  have "\<exists>ev params.
      QUBO_QAOA (Some toy_backend) toy_vvag exact_arith Q22 toy_ansatz 1 3 False 10 =
        (ev, Inr params) \<and>
      filter is_update_event ev =
        [Loss_grad_eval, Optimizer_update, Loss_grad_eval, Optimizer_update,
         Loss_grad_eval, Optimizer_update] \<and>
      tshape params = [2]"
    by (simp add: eval_nat_numeral)
  with h show ?thesis by blast
qed

lemma vvag_run:
  "QUBO_QAOA (Some toy_backend) toy_vvag exact_arith Q22 toy_ansatz 1 3 True 10 =
     ([Ising_conversion, Param_init [2], Param_init [10, 2], Loss_grad_eval, Optimizer_update],
      Inl AttributeError)"
  by (simp add: QUBO_QAOA_def Q22_run toy_backend_def toy_vvag_def K_numpy_def upt_conv_Cons)

text \<open>
  Claim C6. The claim: for every square \<open>Q\<close> and every \<open>iterations\<close>, also with \<open>vvag\<close>
  set, \<open>QUBO_QAOA\<close> performs exactly \<open>iterations\<close> evaluations and updates and returns a
  tensor. With \<open>vvag\<close> set and three iterations asked for, the call makes one evaluation
  and one update and then raises \<open>AttributeError\<close> at the first
  \<open>print(K.numpy(loss))\<close>, since \<open>loss\<close> is a pair; and on the square array
  \<open>np.zeros((0, 0))\<close> the conversion raises \<open>IndexError\<close> before any evaluation. Neither
  call returns a tensor.
\<close>

theorem QUBO_QAOA_stops_early:
  "QUBO_QAOA (Some toy_backend) toy_vvag exact_arith Q22 toy_ansatz 1 3 True 10 =
     ([Ising_conversion, Param_init [2], Param_init [10, 2], Loss_grad_eval, Optimizer_update],
      Inl AttributeError) \<and>
   is_square Q00 \<and>
   QUBO_QAOA (Some toy_backend) toy_vvag exact_arith Q00 toy_ansatz 1 3 False 10 =
     ([Ising_conversion], Inl IndexError)"
proof -
  have "QUBO_QAOA (Some toy_backend) toy_vvag exact_arith Q00 toy_ansatz 1 3 False 10 =
     ([Ising_conversion], Inl IndexError)"
    by (simp add: QUBO_QAOA_def Q00_run)
  moreover have "is_square Q00"
    by (simp add: Q00_def is_square_def)
  ultimately show ?thesis
    using vvag_run by simp
qed

text \<open>
  Claim C3. The claim: with \<open>K\<close> unbound, \<open>QUBO_QAOA\<close> and \<open>print_result_prob\<close> report
  the missing backend, compute nothing and do not crash. Both print the message and go
  on: \<open>print_result_prob\<close> raises \<open>NameError\<close> before it queries the circuit, and
  \<open>QUBO_QAOA\<close> runs the Ising conversion and then raises \<open>NameError\<close>.
\<close>

theorem missing_backend_goes_on:
  "print_result_prob None probability np_argsort c wrap reverse =
     ([Printed (Text backend_message)], Some NameError) \<and>
   QUBO_QAOA None tc_vvag ar Q22 ansatz nlayers iterations vvag ncircuits =
     ([Printed (Text backend_message), Ising_conversion], Inl NameError)"
proof -
  have "0 < nrows Q22" and "is_square Q22"
    using Q22_wf by simp_all
  from QUBO_to_Ising_Inr [OF this] obtain pt ws off where
    "QUBO_to_Ising ar Q22 = Inr (pt, ws, off)" by blast
  then show ?thesis
    by (simp add: print_result_prob_def and_then_def QUBO_QAOA_def)
qed

section \<open>Properties of the result reporter\<close>

lemma states_counting_ones_eq: "states_counting_ones n = states_of n"
  by (simp add: states_counting_ones_def states_of_def Let_def)

text \<open>
  Claim C9. \<open>print_result_cost\<close> reads of its circuit only the qubit count: when that
  count is \<open>len(Q)\<close>, what it prints (and whether it raises) is what
  \<open>print_Q_cost(Q, wrap, reverse)\<close> prints, whatever gates the circuit holds.
\<close>

theorem print_result_cost_reads_only_nqubits:
  assumes "nqubits c = nrows Q"
  shows "print_result_cost c Q wrap reverse = print_Q_cost Q wrap reverse"
  using assms
  by (simp add: print_result_cost_def print_Q_cost_def states_counting_ones_eq)

theorem print_result_cost_reads_only_nqubits_witness:
  "nqubits c_two = nrows Q22 \<and>
   print_result_cost c_two Q22 True False = print_Q_cost Q22 True False \<and>
   print_result_cost c_two Q22 False True = print_Q_cost Q22 False True"
proof -
  have h: "nqubits c_two = nrows Q22" by (simp add: c_two_def Q22_def)
  from print_result_cost_reads_only_nqubits [OF h] h show ?thesis by simp
qed

lemma printed_rows_append: "printed_rows (a @ b) = printed_rows a @ printed_rows b"
  by (simp add: printed_rows_def)

lemma printed_rows_Cons: "printed_rows (e # ev) = row_of e @ printed_rows ev"
  by (simp add: printed_rows_def)

lemma printed_rows_Nil: "printed_rows [] = []"
  by (simp add: printed_rows_def)

lemma printed_rows_table_head: "printed_rows (table_head title) = []"
  by (simp add: printed_rows_def table_head_def)

lemma printed_rows_cost_rows:
  "num < 8 \<Longrightarrow>
   printed_rows (cost_rows items num wrap) = (if wrap then take (8 - num) items else items)"
proof (induction items arbitrary: num)
  case Nil
  then show ?case by (simp add: printed_rows_Nil)
next
  case (Cons kv items)
  obtain k v where kv: "kv = (k, v)" by (cases kv)
  show ?case
  proof (cases "num + 1 \<ge> 8 \<and> wrap")
    case True
    with Cons.prems have "8 - num = Suc 0" by arith
    with True show ?thesis
      by (simp add: kv printed_rows_Cons printed_rows_Nil)
  next
    case False
    show ?thesis
    proof (cases wrap)
      case True
      with False have lt: "num + 1 < 8" by arith
      then have "8 - num = Suc (8 - (num + 1))" by arith
      with Cons.IH [OF lt] True False show ?thesis
        by (simp add: kv printed_rows_Cons)
    next
      case nw: False
      have "printed_rows (cost_rows items (num + 1) False) = items" for num
      proof (induction items arbitrary: num)
        case Nil
        then show ?case by (simp add: printed_rows_Nil)
      next
        case (Cons a items)
        then show ?case by (cases a) (simp add: printed_rows_Cons)
      qed
      with nw show ?thesis by (simp add: kv printed_rows_Cons)
    qed
  qed
qed

lemma printed_rows_cost_table:
  "printed_rows (cost_table cs wrap) = (if wrap then take 8 cs else cs)"
  using printed_rows_cost_rows [of 0 cs wrap]
  by (simp add: cost_table_def printed_rows_append printed_rows_table_head printed_rows_Cons
      printed_rows_Nil)

lemma update_fresh: "k \<notin> fst ` set d \<Longrightarrow> AList.update k v d = d @ [(k, v)]"
  by (induction d) auto

lemma fold_update_distinct:
  "distinct (map fst (acc @ items)) \<Longrightarrow>
   fold (\<lambda>item d. AList.update (fst item) (snd item) d) items acc = acc @ items"
proof (induction items arbitrary: acc)
  case Nil
  then show ?case by simp
next
  case (Cons it items)
  then have "fst it \<notin> fst ` set acc" by auto
  then have "AList.update (fst it) (snd it) acc = acc @ [it]"
    by (simp add: update_fresh)
  moreover from Cons.prems have "distinct (map fst ((acc @ [it]) @ items))" by simp
  ultimately show ?case using Cons.IH [of "acc @ [it]"] by simp
qed

lemma dict_of_distinct: "distinct (map fst items) \<Longrightarrow> dict_of items = items"
  using fold_update_distinct [of "[]" items] by (simp add: dict_of_def)

lemma cost_step_Inl: "cost_step Q s (Inl e) = Inl e"
  by (simp add: cost_step_def)

lemma cost_step_Inr:
  "cost_step Q s (Inr d) =
     (case cost_of Q (bits_of s) of Inl e \<Rightarrow> Inl e | Inr v \<Rightarrow> Inr (AList.update s v d))"
  by (simp add: cost_step_def)

lemma fold_cost_step_Inl: "fold (cost_step Q) ss (Inl e) = Inl e"
  by (induction ss) (simp_all add: cost_step_Inl)

lemma fold_cost_step_natural:
  assumes "fold (cost_step Q) ss (Inr acc) = Inr d" and "distinct (map fst acc @ ss)"
  shows "d = acc @ map (\<lambda>s. (s, projr (cost_of Q (bits_of s)))) ss"
  using assms
proof (induction ss arbitrary: acc)
  case Nil
  then show ?case by simp
next
  case (Cons s ss)
  show ?case
  proof (cases "cost_of Q (bits_of s)")
    case (Inl e)
    with Cons.prems(1) show ?thesis
      by (simp add: cost_step_Inr fold_cost_step_Inl)
  next
    case (Inr v)
    from Cons.prems(2) have "s \<notin> fst ` set acc" by auto
    then have upd: "AList.update s v acc = acc @ [(s, v)]" by (rule update_fresh)
    from Cons.prems(1) have "fold (cost_step Q) ss (Inr (acc @ [(s, v)])) = Inr d"
      by (simp add: cost_step_Inr Inr upd)
    moreover from Cons.prems(2) have "distinct (map fst (acc @ [(s, v)]) @ ss)" by simp
    ultimately have "d = (acc @ [(s, v)]) @ map (\<lambda>s. (s, projr (cost_of Q (bits_of s)))) ss"
      by (rule Cons.IH)
    then show ?thesis by (simp add: Inr)
  qed
qed

lemma filter_sorted_by_value:
  "filter (\<lambda>r. snd r = v) (sorted_by_value items reverse) = filter (\<lambda>r. snd r = v) items"
proof (cases reverse)
  case True
  have "filter (\<lambda>r. snd r = v) (rev (sort_key snd (rev items))) =
        rev (filter (\<lambda>r. snd r = v) (sort_key snd (rev items)))"
    by (simp add: rev_filter)
  also have "\<dots> = rev (filter (\<lambda>r. snd r = v) (rev items))"
    by (simp add: sort_key_stable)
  also have "\<dots> = filter (\<lambda>r. snd r = v) items"
    by (simp add: rev_filter)
  finally show ?thesis using True by (simp add: sorted_by_value_def)
next
  case False
  then show ?thesis by (simp add: sorted_by_value_def sort_key_stable)
qed

lemma mset_sorted_by_value: "mset (sorted_by_value items reverse) = mset items"
  by (simp add: sorted_by_value_def)

lemma distinct_keys_sorted_by_value:
  assumes "distinct (map fst items)"
  shows "distinct (map fst (sorted_by_value items reverse))"
proof -
  have "mset (map fst (sorted_by_value items reverse)) = mset (map fst items)"
    using mset_sorted_by_value [of items reverse] by (metis mset_map)
  then show ?thesis using assms by (metis mset_eq_imp_distinct_iff)
qed

lemma prefix_filter_take: "prefix (filter P (take n xs)) (filter P xs)"
proof -
  have "filter P xs = filter P (take n xs) @ filter P (drop n xs)"
    by (metis append_take_drop_id filter_append)
  then show ?thesis by (simp add: prefix_def)
qed

lemma states_of_map: "states_of n = map (\<lambda>i. zero_pad n (bin_digits i)) [0..<2 ^ n]"
  by (simp add: states_of_def fold_snoc_map)

lemma bin_val_snoc: "bin_val (s @ [c]) = 2 * bin_val s + (if c = CHR ''1'' then 1 else 0)"
  by (simp add: bin_val_def)

lemma bin_val_bin_digits: "bin_val (bin_digits i) = i"
proof (induction i rule: bin_digits.induct)
  case (1 i)
  show ?case
  proof (cases "i < 2")
    case True
    then have "bin_digits i = [if i = 0 then CHR ''0'' else CHR ''1'']"
      by (subst bin_digits.simps) simp
    moreover from True have "i = 0 \<or> i = 1" by arith
    ultimately show ?thesis by (auto simp: bin_val_def)
  next
    case False
    then have ih: "bin_val (bin_digits (i div 2)) = i div 2" by (rule "1")
    have "bin_digits i = bin_digits (i div 2) @ [if i mod 2 = 0 then CHR ''0'' else CHR ''1'']"
      using False by (subst bin_digits.simps) simp
    then have "bin_val (bin_digits i) = 2 * (i div 2) + (if i mod 2 = 0 then 0 else 1)"
      by (simp add: bin_val_snoc ih)
    also have "\<dots> = i" by presburger
    finally show ?thesis .
  qed
qed

lemma foldl_zeros:
  "foldl (\<lambda>a c. 2 * a + (if c = CHR ''1'' then 1 else 0)) (0::nat) (replicate k CHR ''0'') = 0"
  by (induction k) simp_all

lemma bin_val_zero_pad: "bin_val (zero_pad n s) = bin_val s"
  by (simp add: bin_val_def zero_pad_def foldl_zeros)

lemma distinct_states_of: "distinct (states_of n)"
proof -
  have "inj_on (\<lambda>i. zero_pad n (bin_digits i)) (set [0..<2 ^ n])"
  proof (rule inj_on_inverseI)
    fix i
    show "bin_val (zero_pad n (bin_digits i)) = i"
      by (simp add: bin_val_zero_pad bin_val_bin_digits)
  qed
  then show ?thesis
    by (simp add: states_of_map distinct_map)
qed

lemma cost_run:
  assumes "fold (cost_step Q) (states_of n) (Inr []) = Inr d"
  shows "d = natural_costs Q n"
  using fold_cost_step_natural [OF assms] distinct_states_of [of n]
  by (simp add: natural_costs_def)

lemma distinct_keys_natural_costs: "distinct (map fst (natural_costs Q n))"
  using distinct_states_of [of n] by (simp add: natural_costs_def comp_def)

lemma print_result_cost_rows:
  "printed_rows (fst (print_result_cost c Q wrap reverse)) =
     (case fold (cost_step Q) (states_of (nqubits c)) (Inr []) of
        Inl e \<Rightarrow> []
      | Inr d \<Rightarrow>
          (if wrap then take 8 (sorted_by_value (natural_costs Q (nqubits c)) reverse)
           else sorted_by_value (natural_costs Q (nqubits c)) reverse))"
proof (cases "fold (cost_step Q) (states_of (nqubits c)) (Inr [])")
  case (Inl e)
  then show ?thesis
    by (simp add: print_result_cost_def printed_rows_Nil)
next
  case (Inr d)
  then have d: "d = natural_costs Q (nqubits c)" by (rule cost_run)
  have "dict_of (sorted_by_value d r) = sorted_by_value d r" for r
    unfolding d
    by (rule dict_of_distinct) (rule distinct_keys_sorted_by_value, rule distinct_keys_natural_costs)
  then show ?thesis
    using Inr by (simp add: print_result_cost_def printed_rows_cost_table d)
qed

lemma print_result_cost_None:
  "snd (print_result_cost c Q wrap reverse) = None \<longleftrightarrow>
   (\<exists>d. fold (cost_step Q) (states_of (nqubits c)) (Inr []) = Inr d)"
  by (cases "fold (cost_step Q) (states_of (nqubits c)) (Inr [])")
     (simp_all add: print_result_cost_def)

lemma cost_ties_prefix:
  "prefix (filter (\<lambda>r. snd r = v) (printed_rows (fst (print_result_cost c Q wrap reverse))))
          (filter (\<lambda>r. snd r = v) (natural_costs Q (nqubits c)))"
proof (cases "fold (cost_step Q) (states_of (nqubits c)) (Inr [])")
  case (Inl e)
  then show ?thesis by (simp add: print_result_cost_rows)
next
  case (Inr d)
  let ?s = "sorted_by_value (natural_costs Q (nqubits c)) reverse"
  have "prefix (filter (\<lambda>r. snd r = v) (take 8 ?s)) (filter (\<lambda>r. snd r = v) ?s)"
    by (rule prefix_filter_take)
  then show ?thesis
    using Inr by (simp add: print_result_cost_rows filter_sorted_by_value)
qed

lemma cost_ties_all:
  assumes "snd (print_result_cost c Q False reverse) = None"
  shows "filter (\<lambda>r. snd r = v) (printed_rows (fst (print_result_cost c Q False reverse))) =
         filter (\<lambda>r. snd r = v) (natural_costs Q (nqubits c))"
proof -
  from assms obtain d where "fold (cost_step Q) (states_of (nqubits c)) (Inr []) = Inr d"
    by (auto simp: print_result_cost_None)
  then show ?thesis
    by (simp add: print_result_cost_rows filter_sorted_by_value)
qed

lemma and_then_None: "and_then (a, None) b = (a @ fst b, snd b)"
  by (simp add: and_then_def)

lemma py_get_nat: "i < length xs \<Longrightarrow> py_get xs (int i) = Inr (xs ! i)"
  by (simp add: py_get_def)

lemma prob_rows_in_range:
  assumes "list_all (\<lambda>i. i < length ss \<and> i < length ps) is"
  shows "prob_rows ss ps (map int is) = (map (\<lambda>i. Printed (Prob_row (ss ! i) (ps ! i))) is, None)"
  using assms
proof (induction "is")
  case Nil
  then show ?case by simp
next
  case (Cons i "is")
  then have "i < length ss" "i < length ps" by simp_all
  then have "py_get ss (int i) = Inr (ss ! i)" "py_get ps (int i) = Inr (ps ! i)"
    by (simp_all add: py_get_nat)
  with Cons show ?case by (simp add: and_then_None)
qed

lemma printed_rows_prob:
  "printed_rows (map (\<lambda>i. Printed (Prob_row (f i) (g i))) is) = map (\<lambda>i. (f i, g i)) is"
  by (induction "is") (simp_all add: printed_rows_Nil printed_rows_Cons)

lemma prob_table_all:
  assumes "length ss = n" "length ps = n" "length states = n"
  shows "prob_table states ss ps False =
     (table_head ''probability'' @
      map (\<lambda>i. Printed (Prob_row (ss ! i) (ps ! i))) [0..<length states] @
      [Printed (Text rule_line)], None)"
proof -
  have "list_all (\<lambda>i. i < length ss \<and> i < length ps) [0..<length states]"
    using assms by (simp add: list_all_iff)
  from prob_rows_in_range [OF this] show ?thesis
    by (simp add: prob_table_def and_then_None)
qed

lemma map_nth_zip:
  "length xs = length ys \<Longrightarrow> map (\<lambda>i. (xs ! i, ys ! i)) [0..<length xs] = zip xs ys"
  by (rule nth_equalityI) simp_all

lemma print_result_prob_rows:
  assumes "argsort_in_range (np_argsort (map round4 (probability c)))
             (length (states_of (nqubits c))) (length (probability c))"
  shows "snd (print_result_prob (Some k) probability np_argsort c False reverse) = None \<and>
     printed_rows (fst (print_result_prob (Some k) probability np_argsort c False reverse)) =
       map (\<lambda>i. (states_of (nqubits c) ! i, map round4 (probability c) ! i))
         (if reverse then np_argsort (map round4 (probability c))
          else rev (np_argsort (map round4 (probability c))))"
proof -
  let ?states = "states_of (nqubits c)"
  let ?probs = "map round4 (probability c)"
  let ?idx = "if reverse then rev (rev (np_argsort ?probs)) else rev (np_argsort ?probs)"
  from assms have len: "length ?idx = length ?states"
    and rng: "list_all (\<lambda>i. i < length ?states \<and> i < length ?probs) ?idx"
    by (simp_all add: argsort_in_range_def list_all_iff)
  from rng have fs: "fancy_index ?states ?idx = Inr (map (\<lambda>i. ?states ! i) ?idx)"
    and fp: "fancy_index ?probs ?idx = Inr (map (\<lambda>i. ?probs ! i) ?idx)"
    by (simp_all add: fancy_index_def list_all_iff)
  let ?ss = "map (\<lambda>i. ?states ! i) ?idx"
  let ?ps = "map (\<lambda>i. ?probs ! i) ?idx"
  have tab: "prob_table ?states ?ss ?ps False =
     (table_head ''probability'' @
      map (\<lambda>i. Printed (Prob_row (?ss ! i) (?ps ! i))) [0..<length ?states] @
      [Printed (Text rule_line)], None)"
    by (rule prob_table_all [of _ "length ?states"]) (simp_all add: len)
  have run: "print_result_prob (Some k) probability np_argsort c False reverse =
     (Probability_query # table_head ''probability'' @
      map (\<lambda>i. Printed (Prob_row (?ss ! i) (?ps ! i))) [0..<length ?states] @
      [Printed (Text rule_line)], None)"
    using fs fp tab
    by (simp add: print_result_prob_def Let_def and_then_None del: rev_rev_ident)
  have "map (\<lambda>i. (?ss ! i, ?ps ! i)) [0..<length ?states] = zip ?ss ?ps"
    using map_nth_zip [of ?ss ?ps] len by simp
  also have "\<dots> = map (\<lambda>i. (?states ! i, ?probs ! i)) ?idx"
    by (simp add: zip_map_map del: rev_rev_ident) (simp add: zip_same_conv_map)
  finally have rows: "map (\<lambda>i. (?ss ! i, ?ps ! i)) [0..<length ?states] =
      map (\<lambda>i. (?states ! i, ?probs ! i)) ?idx" .
  have "printed_rows (fst (print_result_prob (Some k) probability np_argsort c False reverse)) =
      map (\<lambda>i. (?ss ! i, ?ps ! i)) [0..<length ?states]"
    unfolding run
    by (simp add: printed_rows_Cons printed_rows_append printed_rows_table_head
        printed_rows_prob printed_rows_Nil del: rev_rev_ident)
  with rows run show ?thesis by simp
qed

section \<open>Wrap mode and the order of ties\<close>

lemma run8:
  "print_result_prob (Some toy_backend) probability8 stable_argsort c_empty True False =
     (Probability_query # table_head ''probability'' @
      [Printed (Prob_row ''000'' (3 / 10)), Printed (Prob_row ''011'' (1 / 5)),
       Printed (Prob_row ''100'' (3 / 20)), Printed (Prob_row ''010'' (1 / 10)),
       Printed (Text ''               ... ...''),
       Printed (Prob_row ''101'' (2 / 25)), Printed (Prob_row ''110'' (7 / 100)),
       Printed (Prob_row ''111'' (3 / 50)),
       Printed (Text rule_line)], None)"
  by code_simp

text \<open>
  Claim C4. The claim: under wrap mode the probability report prints exactly 8 state
  entries, the 4 highest and the 4 lowest. The second loop is \<open>range(-4, -1)\<close>, which
  stops before the last entry: for a three-qubit circuit with eight different
  probabilities the report prints 7 entries, and the state of lowest probability
  (\<open>001\<close>, probability \<open>0.04\<close>) is not among them.
\<close>

theorem print_result_prob_wrap_prints_seven:
  "printed_rows (fst (print_result_prob (Some toy_backend) probability8 stable_argsort
                        c_empty True False)) =
     [(''000'', 3 / 10), (''011'', 1 / 5), (''100'', 3 / 20), (''010'', 1 / 10),
      (''101'', 2 / 25), (''110'', 7 / 100), (''111'', 3 / 50)] \<and>
   snd (print_result_prob (Some toy_backend) probability8 stable_argsort c_empty True False) =
     None \<and>
   length (printed_rows (fst (print_result_prob (Some toy_backend) probability8 stable_argsort
                                c_empty True False))) = 7"
  unfolding run8
  by (simp add: printed_rows_Cons printed_rows_append printed_rows_table_head printed_rows_Nil)

text \<open>The cost reports under wrap mode print at most 8 entries.\<close>

theorem print_result_cost_wrap_at_most_eight:
  "length (printed_rows (fst (print_result_cost c Q True reverse))) \<le> 8"
  by (simp add: print_result_cost_rows split: sum.split)

lemma print_result_prob_out_of_range:
  assumes "\<not> list_all (\<lambda>i. i < length (states_of (nqubits c)) \<and>
                          i < length (probability c)) (np_argsort (map round4 (probability c)))"
  shows "printed_rows (fst (print_result_prob (Some k) probability np_argsort c wrap reverse)) = []"
proof -
  let ?states = "states_of (nqubits c)"
  let ?probs = "map round4 (probability c)"
  let ?idx = "if reverse then rev (rev (np_argsort ?probs)) else rev (np_argsort ?probs)"
  from assms have "\<not> list_all (\<lambda>i. i < length ?states) ?idx \<or>
                   \<not> list_all (\<lambda>i. i < length ?probs) ?idx"
    by (auto simp: list_all_iff)
  then have "(\<exists>e. fancy_index ?states ?idx = Inl e) \<or>
             (\<exists>ss e. fancy_index ?states ?idx = Inr ss \<and> fancy_index ?probs ?idx = Inl e)"
    by (auto simp: fancy_index_def simp del: rev_rev_ident)
  then have "fst (print_result_prob (Some k) probability np_argsort c wrap reverse) =
             [Probability_query]"
    by (auto simp: print_result_prob_def Let_def and_then_None simp del: rev_rev_ident)
  then show ?thesis
    by (simp add: printed_rows_Cons printed_rows_Nil)
qed

text \<open>
  Claim C5, as amended. In the cost report, for both values of \<open>reverse\<close> (and of
  \<open>wrap\<close>), the printed rows of any one cost \<open>v\<close> are an initial part of the rows of
  cost \<open>v\<close> in enumeration order, and all of them when the report is not wrapped: states
  of equal cost are printed in enumeration order. In the probability report (not
  wrapped, \<open>np.argsort\<close> returning one valid index per state), the rows are printed in
  \<open>np.argsort\<close>'s order of the rounded probabilities when \<open>reverse\<close> is set, and in exactly
  the reverse of that order when it is not.
\<close>

theorem tie_order_of_reports:
  "prefix (filter (\<lambda>r. snd r = v) (printed_rows (fst (print_result_cost c Q wrap reverse))))
          (filter (\<lambda>r. snd r = v) (natural_costs Q (nqubits c))) \<and>
   (snd (print_result_cost c Q False reverse) = None \<longrightarrow>
      filter (\<lambda>r. snd r = v) (printed_rows (fst (print_result_cost c Q False reverse))) =
      filter (\<lambda>r. snd r = v) (natural_costs Q (nqubits c))) \<and>
   (argsort_in_range (np_argsort (map round4 (probability c')))
        (length (states_of (nqubits c'))) (length (probability c')) \<longrightarrow>
      snd (print_result_prob (Some k) probability np_argsort c' False reverse) = None \<and>
      printed_rows (fst (print_result_prob (Some k) probability np_argsort c' False reverse)) =
        map (\<lambda>i. (states_of (nqubits c') ! i, map round4 (probability c') ! i))
          (if reverse then np_argsort (map round4 (probability c'))
           else rev (np_argsort (map round4 (probability c')))))"
  using cost_ties_prefix [of v c Q wrap reverse] cost_ties_all [of c Q reverse v]
    print_result_prob_rows [of np_argsort probability c' k reverse]
  by blast

lemma natural_costs_diag:
  "natural_costs Q_diag 2 = [(''00'', 0), (''01'', 1), (''10'', 1), (''11'', 2)]"
  by code_simp

lemma cost_run_diag: "snd (print_result_cost c_two Q_diag False True) = None"
  by code_simp

lemma tie_in_range:
  "argsort_in_range (stable_argsort (map round4 (probability_tie c_one)))
     (length (states_of (nqubits c_one))) (length (probability_tie c_one))"
  by code_simp

lemma tie_rows_reverse:
  "map (\<lambda>i. (states_of (nqubits c_one) ! i, map round4 (probability_tie c_one) ! i))
     (stable_argsort (map round4 (probability_tie c_one))) = [(''0'', 1 / 2), (''1'', 1 / 2)]"
  by code_simp

lemma tie_rows_default:
  "map (\<lambda>i. (states_of (nqubits c_one) ! i, map round4 (probability_tie c_one) ! i))
     (rev (stable_argsort (map round4 (probability_tie c_one)))) =
   [(''1'', 1 / 2), (''0'', 1 / 2)]"
  by code_simp

theorem tie_order_of_reports_witness:
  "snd (print_result_cost c_two Q_diag False True) = None \<and>
   filter (\<lambda>r. snd r = 1) (printed_rows (fst (print_result_cost c_two Q_diag False True))) =
     [(''01'', 1), (''10'', 1)] \<and>
   argsort_in_range (stable_argsort (map round4 (probability_tie c_one)))
     (length (states_of (nqubits c_one))) (length (probability_tie c_one)) \<and>
   printed_rows (fst (print_result_prob (Some toy_backend) probability_tie stable_argsort
                        c_one False True)) = [(''0'', 1 / 2), (''1'', 1 / 2)]"
proof -
  note t = tie_order_of_reports [of 1 c_two Q_diag False True stable_argsort probability_tie
      c_one toy_backend]
  have n2: "nqubits c_two = 2" by (simp add: c_two_def)
  from t cost_run_diag
  have "filter (\<lambda>r. snd r = 1) (printed_rows (fst (print_result_cost c_two Q_diag False True))) =
        filter (\<lambda>r. snd r = 1) (natural_costs Q_diag (nqubits c_two))"
    by blast
  then have a: "filter (\<lambda>r. snd r = 1)
      (printed_rows (fst (print_result_cost c_two Q_diag False True))) = [(''01'', 1), (''10'', 1)]"
    by (simp add: n2 natural_costs_diag)
  from t tie_in_range
  have "printed_rows (fst (print_result_prob (Some toy_backend) probability_tie stable_argsort
                        c_one False True)) =
        map (\<lambda>i. (states_of (nqubits c_one) ! i, map round4 (probability_tie c_one) ! i))
          (stable_argsort (map round4 (probability_tie c_one)))"
    by simp
  then have b: "printed_rows (fst (print_result_prob (Some toy_backend) probability_tie
      stable_argsort c_one False True)) = [(''0'', 1 / 2), (''1'', 1 / 2)]"
    by (simp only: tie_rows_reverse)
  from a b cost_run_diag tie_in_range show ?thesis by blast
qed

lemma tie_run_default:
  "printed_rows (fst (print_result_prob (Some toy_backend) probability_tie stable_argsort
                        c_one False False)) = [(''1'', 1 / 2), (''0'', 1 / 2)]"
proof -
  from print_result_prob_rows [of stable_argsort probability_tie c_one toy_backend False]
    tie_in_range
  have "printed_rows (fst (print_result_prob (Some toy_backend) probability_tie stable_argsort
                        c_one False False)) =
        map (\<lambda>i. (states_of (nqubits c_one) ! i, map round4 (probability_tie c_one) ! i))
          (rev (stable_argsort (map round4 (probability_tie c_one))))"
    by simp
  then show ?thesis by (simp only: tie_rows_default)
qed

text \<open>
  Claim C5 as stated fails for the probability report. On one qubit with both
  probabilities \<open>0.5\<close>, the default report (\<open>reverse=False\<close>) prints state \<open>1\<close> before
  state \<open>0\<close> when \<open>np.argsort\<close> keeps ties in index order; and whatever order
  \<open>np.argsort\<close> gives the tie, no result with one index per probability makes both
  flags print the two states in enumeration order.
\<close>

theorem probability_ties_not_in_enumeration_order:
  "printed_rows (fst (print_result_prob (Some toy_backend) probability_tie stable_argsort
                        c_one False False)) = [(''1'', 1 / 2), (''0'', 1 / 2)] \<and>
   \<not> (\<exists>np_argsort.
         length (np_argsort (map round4 (probability_tie c_one))) =
           length (probability_tie c_one) \<and>
         printed_rows (fst (print_result_prob (Some toy_backend) probability_tie np_argsort
                              c_one False False)) = [(''0'', 1 / 2), (''1'', 1 / 2)] \<and>
         printed_rows (fst (print_result_prob (Some toy_backend) probability_tie np_argsort
                              c_one False True)) = [(''0'', 1 / 2), (''1'', 1 / 2)])"
proof (intro conjI notI)
  show "printed_rows (fst (print_result_prob (Some toy_backend) probability_tie stable_argsort
                        c_one False False)) = [(''1'', 1 / 2), (''0'', 1 / 2)]"
    by (rule tie_run_default)
next
  let ?L = "[(''0'', 1 / 2), (''1'', 1 / 2 :: real)]"
  let ?g = "\<lambda>i. (states_of (nqubits c_one) ! i, map round4 (probability_tie c_one) ! i)"
  assume "\<exists>np_argsort.
         length (np_argsort (map round4 (probability_tie c_one))) =
           length (probability_tie c_one) \<and>
         printed_rows (fst (print_result_prob (Some toy_backend) probability_tie np_argsort
                              c_one False False)) = ?L \<and>
         printed_rows (fst (print_result_prob (Some toy_backend) probability_tie np_argsort
                              c_one False True)) = ?L"
  then obtain f where
    len: "length (f (map round4 (probability_tie c_one))) = length (probability_tie c_one)"
    and F: "printed_rows (fst (print_result_prob (Some toy_backend) probability_tie f
                              c_one False False)) = ?L"
    and T: "printed_rows (fst (print_result_prob (Some toy_backend) probability_tie f
                              c_one False True)) = ?L"
    by blast
  let ?idx = "f (map round4 (probability_tie c_one))"
  have rng: "list_all (\<lambda>i. i < length (states_of (nqubits c_one)) \<and>
                          i < length (probability_tie c_one)) ?idx"
  proof (rule ccontr)
    assume "\<not> ?thesis"
    with print_result_prob_out_of_range [of c_one probability_tie f toy_backend False True] T
    show False by simp
  qed
  have "length (states_of (nqubits c_one)) = length (probability_tie c_one)"
    by code_simp
  with len rng have ok: "argsort_in_range ?idx (length (states_of (nqubits c_one)))
      (length (probability_tie c_one))"
    by (simp add: argsort_in_range_def)
  from print_result_prob_rows [of f probability_tie c_one toy_backend True] ok T
  have t: "map ?g ?idx = ?L" by simp
  from print_result_prob_rows [of f probability_tie c_one toy_backend False] ok F
  have "map ?g (rev ?idx) = ?L" by simp
  then have "rev (map ?g ?idx) = ?L" by (simp add: rev_map)
  with t have "rev ?L = ?L" by simp
  then show False by simp
qed

section \<open>The reconstruction identity of the Ising converter\<close>

lemma double_sum_split:
  fixes f :: "nat \<Rightarrow> nat \<Rightarrow> real"
  shows "(\<Sum>i = 0..<n. \<Sum>j = 0..<n. f i j) =
         (\<Sum>i = 0..<n. f i i) + (\<Sum>i = 0..<n. \<Sum>j = Suc i..<n. f i j + f j i)"
proof (induction n)
  case 0
  then show ?case by simp
next
  case (Suc n)
  have "(\<Sum>i = 0..<Suc n. \<Sum>j = 0..<Suc n. f i j) =
        (\<Sum>i = 0..<n. \<Sum>j = 0..<n. f i j) + (\<Sum>i = 0..<n. f i n) + (\<Sum>j = 0..<n. f n j) + f n n"
    by (simp add: sum.distrib)
  moreover have "(\<Sum>i = 0..<Suc n. \<Sum>j = Suc i..<Suc n. f i j + f j i) =
        (\<Sum>i = 0..<n. \<Sum>j = Suc i..<n. f i j + f j i) + (\<Sum>i = 0..<n. f i n + f n i)"
  proof -
    have "(\<Sum>i = 0..<Suc n. \<Sum>j = Suc i..<Suc n. f i j + f j i) =
          (\<Sum>i = 0..<n. \<Sum>j = Suc i..<Suc n. f i j + f j i)"
      by simp
    also have "\<dots> = (\<Sum>i = 0..<n. (\<Sum>j = Suc i..<n. f i j + f j i) + (f i n + f n i))"
      by (rule sum.cong) simp_all
    also have "\<dots> = (\<Sum>i = 0..<n. \<Sum>j = Suc i..<n. f i j + f j i) + (\<Sum>i = 0..<n. f i n + f n i)"
      by (simp add: sum.distrib)
    finally show ?thesis .
  qed
  ultimately show ?case
    using Suc.IH by (simp add: sum.distrib)
qed

lemma upper_sum_cong:
  fixes f g :: "nat \<Rightarrow> nat \<Rightarrow> real"
  assumes "\<And>i j. i < j \<Longrightarrow> j < n \<Longrightarrow> f i j = g i j"
  shows "(\<Sum>i = 0..<n. \<Sum>j = Suc i..<n. f i j) = (\<Sum>i = 0..<n. \<Sum>j = Suc i..<n. g i j)"
  by (intro sum.cong refl) (simp add: assms)

lemma ising_algebra:
  fixes q :: "nat \<Rightarrow> nat \<Rightarrow> real" and x :: "nat \<Rightarrow> real"
  assumes sym: "\<And>i j. i < n \<Longrightarrow> j < n \<Longrightarrow> q i j = q j i"
    and bin: "\<And>i. i < n \<Longrightarrow> x i * x i = x i"
  shows "(\<Sum>i = 0..<n. \<Sum>j = i..<n. q i j) / 2 +
         (\<Sum>i = 0..<n. - (\<Sum>j = 0..<n. q i j) / 2 * (1 - 2 * x i)) +
         (\<Sum>i = 0..<n. \<Sum>j = Suc i..<n. q i j / 2 * ((1 - 2 * x i) * (1 - 2 * x j))) =
         (\<Sum>i = 0..<n. \<Sum>j = 0..<n. x i * q i j * x j)"
proof -
  define z where "z i = 1 - 2 * x i" for i
  define D where "D = (\<Sum>i = 0..<n. q i i)"
  define Dz where "Dz = (\<Sum>i = 0..<n. q i i * z i)"
  define U where "U = (\<Sum>i = 0..<n. \<Sum>j = Suc i..<n. q i j)"
  define Uz where "Uz = (\<Sum>i = 0..<n. \<Sum>j = Suc i..<n. q i j * (z i + z j))"
  define Uzz where "Uzz = (\<Sum>i = 0..<n. \<Sum>j = Suc i..<n. q i j * (z i * z j))"
  have off: "(\<Sum>i = 0..<n. \<Sum>j = i..<n. q i j) = D + U"
  proof -
    have "(\<Sum>i = 0..<n. \<Sum>j = i..<n. q i j) = (\<Sum>i = 0..<n. q i i + (\<Sum>j = Suc i..<n. q i j))"
      by (rule sum.cong) (simp_all add: sum.atLeast_Suc_lessThan)
    then show ?thesis by (simp add: sum.distrib D_def U_def)
  qed
  have singles: "(\<Sum>i = 0..<n. - (\<Sum>j = 0..<n. q i j) / 2 * z i) = - (Dz + Uz) / 2"
  proof -
    have "(\<Sum>i = 0..<n. - (\<Sum>j = 0..<n. q i j) / 2 * z i) =
          - (\<Sum>i = 0..<n. \<Sum>j = 0..<n. q i j * z i) / 2"
      by (simp add: sum_distrib_right sum_negf sum_divide_distrib)
    also have "(\<Sum>i = 0..<n. \<Sum>j = 0..<n. q i j * z i) =
          Dz + (\<Sum>i = 0..<n. \<Sum>j = Suc i..<n. q i j * z i + q j i * z j)"
      unfolding Dz_def by (rule double_sum_split)
    also have "(\<Sum>i = 0..<n. \<Sum>j = Suc i..<n. q i j * z i + q j i * z j) = Uz"
      unfolding Uz_def
      by (rule upper_sum_cong) (simp add: sym [symmetric] algebra_simps)
    finally show ?thesis .
  qed
  have pairs: "(\<Sum>i = 0..<n. \<Sum>j = Suc i..<n. q i j / 2 * (z i * z j)) = Uzz / 2"
    by (simp add: Uzz_def sum_divide_distrib)
  have quad: "(\<Sum>i = 0..<n. \<Sum>j = 0..<n. x i * q i j * x j) =
              (D - Dz) / 2 + (U - Uz + Uzz) / 2"
  proof -
    have "(\<Sum>i = 0..<n. \<Sum>j = 0..<n. x i * q i j * x j) =
          (\<Sum>i = 0..<n. x i * q i i * x i) +
          (\<Sum>i = 0..<n. \<Sum>j = Suc i..<n. x i * q i j * x j + x j * q j i * x i)"
      by (rule double_sum_split)
    also have "(\<Sum>i = 0..<n. x i * q i i * x i) = (\<Sum>i = 0..<n. (q i i - q i i * z i) / 2)"
    proof (rule sum.cong)
      fix i assume "i \<in> {0..<n}"
      then have "x i * x i = x i" by (simp add: bin)
      then have "x i * q i i * x i = q i i * x i" by (simp add: mult.assoc mult.left_commute)
      then show "x i * q i i * x i = (q i i - q i i * z i) / 2"
        by (simp add: z_def algebra_simps)
    qed simp
    also have "\<dots> = (\<Sum>i = 0..<n. q i i - q i i * z i) / 2"
      by (simp only: sum_divide_distrib)
    also have "\<dots> = (D - Dz) / 2"
      by (simp only: sum_subtractf D_def Dz_def)
    also have "(\<Sum>i = 0..<n. \<Sum>j = Suc i..<n. x i * q i j * x j + x j * q j i * x i) =
               (\<Sum>i = 0..<n. \<Sum>j = Suc i..<n.
                  (q i j - q i j * (z i + z j) + q i j * (z i * z j)) / 2)"
    proof (rule upper_sum_cong)
      fix i j assume "i < j" "j < n"
      then have "q j i = q i j" by (simp add: sym)
      then show "x i * q i j * x j + x j * q j i * x i =
                 (q i j - q i j * (z i + z j) + q i j * (z i * z j)) / 2"
        by (simp add: z_def algebra_simps)
    qed
    also have "\<dots> = (\<Sum>i = 0..<n. \<Sum>j = Suc i..<n.
                  q i j - q i j * (z i + z j) + q i j * (z i * z j)) / 2"
      by (simp only: sum_divide_distrib)
    also have "\<dots> = (U - Uz + Uzz) / 2"
      by (simp only: sum_subtractf sum.distrib U_def Uz_def Uzz_def)
    finally show ?thesis .
  qed
  have "(\<Sum>i = 0..<n. \<Sum>j = i..<n. q i j) / 2 +
        (\<Sum>i = 0..<n. - (\<Sum>j = 0..<n. q i j) / 2 * z i) +
        (\<Sum>i = 0..<n. \<Sum>j = Suc i..<n. q i j / 2 * (z i * z j)) =
        (D + U) / 2 + - (Dz + Uz) / 2 + Uzz / 2"
    by (simp only: off singles pairs)
  also have "\<dots> = (D - Dz) / 2 + (U - Uz + Uzz) / 2"
    by (simp add: field_simps)
  finally show ?thesis
    unfolding quad z_def .
qed

lemma sum_list_concat_eq:
  fixes xss :: "real list list"
  shows "sum_list (concat xss) = sum_list (map sum_list xss)"
  by (induction xss) simp_all

lemma sum_nth_zip:
  fixes ws :: "real list"
  assumes "length ws = length ts"
  shows "(\<Sum>k\<leftarrow>[0..<length ts]. ws ! k * f (ts ! k)) = (\<Sum>p\<leftarrow>zip ws ts. fst p * f (snd p))"
proof -
  have "map (\<lambda>k. ws ! k * f (ts ! k)) [0..<length ts] = map (\<lambda>p. fst p * f (snd p)) (zip ws ts)"
    using assms by (intro nth_equalityI) simp_all
  then show ?thesis by simp
qed

lemma z_value_indicator:
  assumes "S \<subseteq> {0..<n}"
  shows "z_value x (indicator_vec n S) = (\<Prod>l\<in>S. 1 - 2 * x ! l)"
proof -
  have "map (\<lambda>l. if indicator_vec n S ! l = 1 then 1 - 2 * x ! l else 1) [0..<n] =
        map (\<lambda>l. if l \<in> S then 1 - 2 * x ! l else 1) [0..<n]"
    by (rule map_cong) (simp_all add: indicator_vec_def)
  moreover have "length (indicator_vec n S) = n"
    by (simp add: indicator_vec_def)
  ultimately have "z_value x (indicator_vec n S) =
             prod_list (map (\<lambda>l. if l \<in> S then 1 - 2 * x ! l else 1) [0..<n])"
    by (simp only: z_value_def)
  also have "\<dots> = (\<Prod>l \<in> {0..<n}. if l \<in> S then 1 - 2 * x ! l else 1)"
    using prod.distinct_set_conv_list [of "[0..<n]" "\<lambda>l. if l \<in> S then 1 - 2 * x ! l else 1"]
    by simp
  also have "\<dots> = (\<Prod>l\<in>S. 1 - 2 * x ! l)"
    using assms by (intro prod.mono_neutral_cong_right) auto
  finally show ?thesis .
qed

lemma z_value_single: "i < n \<Longrightarrow> z_value x (single_term n i) = 1 - 2 * x ! i"
  using z_value_indicator [of "{i}" n x] by (simp add: single_term_indicator)

lemma z_value_pair:
  "i < j \<Longrightarrow> j < n \<Longrightarrow> z_value x (pair_term n i j) = (1 - 2 * x ! i) * (1 - 2 * x ! j)"
  using z_value_indicator [of "{i, j}" n x] by (simp add: pair_term_indicator)

lemma map_nth_upt_conv: "map f xs = map (\<lambda>i. f (xs ! i)) [0..<length xs]"
  by (rule nth_equalityI) simp_all

lemma sum_upper_pairs:
  fixes g :: "nat \<Rightarrow> nat \<Rightarrow> real"
  shows "(\<Sum>p\<leftarrow>upper_pairs n. g (fst p) (snd p)) = (\<Sum>i = 0..<n. \<Sum>j = Suc i..<n. g i j)"
proof -
  have "map (\<lambda>p. g (fst p) (snd p)) (upper_pairs n) =
        concat (map (\<lambda>i. map (g i) [Suc i..<n]) [0..<n])"
    by (rule map_upper_pairs)
  then have "(\<Sum>p\<leftarrow>upper_pairs n. g (fst p) (snd p)) =
        (\<Sum>i\<leftarrow>[0..<n]. sum_list (map (g i) [Suc i..<n]))"
    by (simp only: sum_list_concat_eq map_map comp_def)
  also have "\<dots> = (\<Sum>i = 0..<n. \<Sum>j = Suc i..<n. g i j)"
    by (simp add: interv_sum_list_conv_sum_set_nat)
  finally show ?thesis .
qed

lemma ising_energy_closed:
  assumes "0 < nrows Q" and "ncols Q = nrows Q" and "wf_ndarray Q"
    and out: "QUBO_to_Ising exact_arith Q = Inr out"
  shows "ising_energy out x =
     (\<Sum>i = 0..<nrows Q. \<Sum>j = i..<nrows Q. entry Q i j) / 2 +
     (\<Sum>i = 0..<nrows Q. - (\<Sum>j = 0..<nrows Q. entry Q i j) / 2 * (1 - 2 * x ! i)) +
     (\<Sum>i = 0..<nrows Q. \<Sum>j = Suc i..<nrows Q.
        entry Q i j / 2 * ((1 - 2 * x ! i) * (1 - 2 * x ! j)))"
proof -
  let ?n = "nrows Q"
  let ?ups = "upper_pairs ?n"
  let ?t1 = "map (single_term ?n) [0..<?n]"
  let ?t2 = "map (\<lambda>p. pair_term ?n (fst p) (snd p)) ?ups"
  let ?w1 = "map (\<lambda>r. - sum_list r / 2) (rows_of Q)"
  let ?w2 = "map (\<lambda>p. entry Q (fst p) (snd p) / 2) ?ups"
  from assms(3) have len: "length (rows_of Q) = ?n"
    and rowlen: "\<And>i. i < ?n \<Longrightarrow> length (rows_of Q ! i) = ncols Q"
    by (simp_all add: wf_ndarray_def list_all_length)
  have o: "out = (?t1 @ ?t2, ?w1 @ ?w2, sum_list (map sum_list (triu Q)) / 2)"
    using QUBO_to_Ising_exact [OF assms(1,2)] out by simp
  have l1: "length ?w1 = length ?t1" by (simp add: len)
  have rows: "sum_list (rows_of Q ! i) = (\<Sum>j = 0..<?n. entry Q i j)" if "i < ?n" for i
    using rowlen [OF that] assms(2) by (simp add: sum_list_sum_nth entry_def)
  have "?w1 = map (\<lambda>i. - sum_list (rows_of Q ! i) / 2) [0..<?n]"
    unfolding len [symmetric] by (rule map_nth_upt_conv)
  also have "\<dots> = map (\<lambda>i. - (\<Sum>j = 0..<?n. entry Q i j) / 2) [0..<?n]"
    by (rule map_cong) (simp_all add: rows)
  finally have w1: "?w1 = map (\<lambda>i. - (\<Sum>j = 0..<?n. entry Q i j) / 2) [0..<?n]" .
  have "(\<Sum>k\<leftarrow>[0..<length (?t1 @ ?t2)]. (?w1 @ ?w2) ! k * z_value x ((?t1 @ ?t2) ! k)) =
        (\<Sum>p\<leftarrow>zip (?w1 @ ?w2) (?t1 @ ?t2). fst p * z_value x (snd p))"
    by (rule sum_nth_zip) (simp add: len)
  also have "\<dots> = (\<Sum>p\<leftarrow>zip ?w1 ?t1. fst p * z_value x (snd p)) +
                   (\<Sum>p\<leftarrow>zip ?w2 ?t2. fst p * z_value x (snd p))"
    by (simp only: zip_append [OF l1] map_append sum_list_append)
  also have "(\<Sum>p\<leftarrow>zip ?w1 ?t1. fst p * z_value x (snd p)) =
             (\<Sum>i = 0..<?n. - (\<Sum>j = 0..<?n. entry Q i j) / 2 * (1 - 2 * x ! i))"
  proof -
    have "zip ?w1 ?t1 =
          map (\<lambda>i. (- (\<Sum>j = 0..<?n. entry Q i j) / 2, single_term ?n i)) [0..<?n]"
      unfolding w1 by (simp add: zip_map_map zip_same_conv_map)
    then have "(\<Sum>p\<leftarrow>zip ?w1 ?t1. fst p * z_value x (snd p)) =
          (\<Sum>i = 0..<?n. - (\<Sum>j = 0..<?n. entry Q i j) / 2 * z_value x (single_term ?n i))"
      by (simp add: comp_def interv_sum_list_conv_sum_set_nat)
    also have "\<dots> = (\<Sum>i = 0..<?n. - (\<Sum>j = 0..<?n. entry Q i j) / 2 * (1 - 2 * x ! i))"
      by (rule sum.cong) (simp_all add: z_value_single)
    finally show ?thesis .
  qed
  also have "(\<Sum>p\<leftarrow>zip ?w2 ?t2. fst p * z_value x (snd p)) =
             (\<Sum>i = 0..<?n. \<Sum>j = Suc i..<?n.
                entry Q i j / 2 * ((1 - 2 * x ! i) * (1 - 2 * x ! j)))"
  proof -
    have "zip ?w2 ?t2 =
          map (\<lambda>p. (entry Q (fst p) (snd p) / 2, pair_term ?n (fst p) (snd p))) ?ups"
      by (simp add: zip_map_map zip_same_conv_map)
    then have "(\<Sum>p\<leftarrow>zip ?w2 ?t2. fst p * z_value x (snd p)) =
          (\<Sum>p\<leftarrow>?ups. entry Q (fst p) (snd p) / 2 * z_value x (pair_term ?n (fst p) (snd p)))"
      by (simp add: comp_def)
    also have "\<dots> = (\<Sum>i = 0..<?n. \<Sum>j = Suc i..<?n.
                entry Q i j / 2 * z_value x (pair_term ?n i j))"
      by (rule sum_upper_pairs [of "\<lambda>i j. entry Q i j / 2 * z_value x (pair_term ?n i j)"])
    also have "\<dots> = (\<Sum>i = 0..<?n. \<Sum>j = Suc i..<?n.
                entry Q i j / 2 * ((1 - 2 * x ! i) * (1 - 2 * x ! j)))"
      by (rule upper_sum_cong) (simp add: z_value_pair)
    finally show ?thesis .
  qed
  finally have terms:
    "(\<Sum>k\<leftarrow>[0..<length (?t1 @ ?t2)]. (?w1 @ ?w2) ! k * z_value x ((?t1 @ ?t2) ! k)) =
     (\<Sum>i = 0..<?n. - (\<Sum>j = 0..<?n. entry Q i j) / 2 * (1 - 2 * x ! i)) +
     (\<Sum>i = 0..<?n. \<Sum>j = Suc i..<?n.
        entry Q i j / 2 * ((1 - 2 * x ! i) * (1 - 2 * x ! j)))" .
  have "ising_energy out x = sum_list (map sum_list (triu Q)) / 2 +
     (\<Sum>k\<leftarrow>[0..<length (?t1 @ ?t2)]. (?w1 @ ?w2) ! k * z_value x ((?t1 @ ?t2) ! k))"
    unfolding o ising_energy_def by (simp only: prod.case)
  then show ?thesis
    unfolding terms triu_sum_upper [OF assms(2)] by simp
qed

text \<open>
  The reconstruction identity in exact arithmetic. For every well-formed symmetric array
  \<open>Q\<close> with at least one row and every binary vector \<open>x\<close> of length \<open>n = nrows Q\<close>, when
  the sums, the negation and the halving are exact, \<open>QUBO_to_Ising\<close> returns outputs
  \<open>(pauli_terms, weights, offset)\<close> that reconstruct the quadratic form: the offset plus
  the sum over the terms of the weight times the product of the classical Z-values
  \<open>1 - 2 x\<^sub>l\<close> of the marked qubits equals \<open>x\<^sup>T Q x\<close>.
\<close>

theorem QUBO_to_Ising_reconstructs:
  assumes "wf_ndarray Q" and "is_symmetric Q" and "is_binary x" and "length x = nrows Q"
    and "0 < nrows Q"
  shows "\<exists>out. QUBO_to_Ising exact_arith Q = Inr out \<and> ising_energy out x = quad_form Q x"
proof -
  let ?n = "nrows Q"
  from assms(2) have sq: "ncols Q = ?n"
    and sym: "\<And>i j. i < ?n \<Longrightarrow> j < ?n \<Longrightarrow> entry Q i j = entry Q j i"
    by (simp_all add: is_symmetric_def is_square_def)
  from QUBO_to_Ising_exact [OF assms(5) sq] obtain out where
    out: "QUBO_to_Ising exact_arith Q = Inr out" by blast
  have bin: "x ! i * x ! i = x ! i" if "i < ?n" for i
  proof -
    from that assms(3,4) have "x ! i = 0 \<or> x ! i = 1"
      by (simp add: is_binary_def list_all_length)
    then show ?thesis by auto
  qed
  have "ising_energy out x =
     (\<Sum>i = 0..<?n. \<Sum>j = i..<?n. entry Q i j) / 2 +
     (\<Sum>i = 0..<?n. - (\<Sum>j = 0..<?n. entry Q i j) / 2 * (1 - 2 * x ! i)) +
     (\<Sum>i = 0..<?n. \<Sum>j = Suc i..<?n.
        entry Q i j / 2 * ((1 - 2 * x ! i) * (1 - 2 * x ! j)))"
    using assms(5) sq assms(1) out by (rule ising_energy_closed)
  also have "\<dots> = (\<Sum>i = 0..<?n. \<Sum>j = 0..<?n. x ! i * entry Q i j * x ! j)"
    by (rule ising_algebra [of ?n "entry Q" "\<lambda>i. x ! i"]) (simp_all add: sym bin)
  also have "\<dots> = quad_form Q x"
    by (simp add: quad_form_def sq interv_sum_list_conv_sum_set_nat)
  finally show ?thesis using out by blast
qed

lemma Q22_symmetric: "is_symmetric Q22"
  by (simp add: is_symmetric_def is_square_def Q22_def entry_def numeral_2_eq_2 less_Suc_eq)

lemma quad_form_Q22: "quad_form Q22 [1, 1] = 8"
  by (simp add: quad_form_def Q22_def entry_def numeral_2_eq_2)

theorem QUBO_to_Ising_reconstructs_witness:
  "wf_ndarray Q22 \<and> is_symmetric Q22 \<and> is_binary [1, 1] \<and> length [1, 1 :: real] = nrows Q22 \<and>
   0 < nrows Q22 \<and>
   QUBO_to_Ising exact_arith Q22 = Inr ([[1, 0], [0, 1], [1, 1]], [- 3 / 2, - 5 / 2, 1], 3) \<and>
   ising_energy ([[1, 0], [0, 1], [1, 1]], [- 3 / 2, - 5 / 2, 1], 3) [1, 1] = 8"
proof -
  have h: "wf_ndarray Q22" "is_symmetric Q22" "is_binary [1, 1]" "length [1, 1 :: real] = nrows Q22"
    "0 < nrows Q22"
    using Q22_wf Q22_symmetric by (simp_all add: is_binary_def Q22_def)
  from QUBO_to_Ising_reconstructs [OF h]
  have "ising_energy ([[1, 0], [0, 1], [1, 1]], [- 3 / 2, - 5 / 2, 1], 3) [1, 1] = 8"
    by (simp add: Q22_run quad_form_Q22)
  with h Q22_run show ?thesis by simp
qed

lemma Q00_symmetric: "is_symmetric Q00"
  by (simp add: is_symmetric_def is_square_def Q00_def)

text \<open>
  Claim C1. The claim: for every symmetric \<open>n\<close>-by-\<open>n\<close> array \<open>Q\<close> and every binary
  vector \<open>x\<close> of length \<open>n\<close>, the outputs of \<open>QUBO_to_Ising(Q)\<close> reconstruct \<open>x\<^sup>T Q x\<close>. The
  array \<open>np.zeros((0, 0))\<close> is symmetric, the empty vector is binary of length 0 and
  its quadratic form is 0, but the call has no outputs: \<open>Q[0]\<close> in the shape check raises
  \<open>IndexError\<close>, in whatever arithmetic numpy uses.
\<close>

theorem QUBO_to_Ising_no_outputs_on_empty:
  "wf_ndarray Q00 \<and> is_symmetric Q00 \<and> is_binary [] \<and> length ([] :: real list) = nrows Q00 \<and>
   quad_form Q00 [] = 0 \<and> QUBO_to_Ising ar Q00 = Inl IndexError"
  by (simp add: Q00_run Q00_symmetric) (simp add: Q00_def wf_ndarray_def is_binary_def quad_form_def)

text \<open>The same run in exact arithmetic.\<close>

theorem QUBO_to_Ising_no_outputs_on_empty_witness:
  "wf_ndarray Q00 \<and> is_symmetric Q00 \<and> is_binary [] \<and> length ([] :: real list) = nrows Q00 \<and>
   quad_form Q00 [] = 0 \<and> QUBO_to_Ising exact_arith Q00 = Inl IndexError"
  by (rule QUBO_to_Ising_no_outputs_on_empty [of exact_arith])

end
